theory Spec2Isabelle
  imports Main "HOL-Library.Char_ord" "HOL-Library.List_Lexorder"
begin

text \<open>
  A model of the flake locking core: \<^verbatim>\<open>src/libexpr/flake/flake.cc\<close> (the fetch
  cache, the manifest loader, the lock solver \<^verbatim>\<open>lockFlake\<close> and the primitive
  \<^verbatim>\<open>getFlake\<close>) and \<^verbatim>\<open>Input::fetchTree\<close> of \<^verbatim>\<open>src/libfetchers/fetchers.cc\<close>.
  Functions keep the names of the source; exceptions are values, the state that the
  source mutates is passed along, and what the source calls without defining it is
  a parameter. Calls of \<^verbatim>\<open>debug\<close> print at debug level only and are left out.
\<close>

section \<open>Errors and outcomes\<close>

text \<open>
  Every \<^verbatim>\<open>throw Error(...)\<close> of \<^verbatim>\<open>flake.cc\<close> and \<^verbatim>\<open>fetchers.cc\<close> is a constructor
  of \<open>error\<close>, named after the error kinds of the specification; a failed \<^verbatim>\<open>assert\<close>
  is \<open>AssertionFailed\<close>. \<open>UndefinedBehaviour\<close> is the dereference of the begin iterator
  of an empty vector in \<^verbatim>\<open>setOverride\<close>: the model stops there. The remaining
  constructors are the failures of the external collaborators (registry, fetcher
  backends, store, evaluator, lock file reader).
\<close>

datatype error =
    MalformedManifest
  | MalformedLock
  | UnknownRegistryEntry
  | RegistryLookupDisallowed
  | FetchFailure
  | HashMismatch
  | SymlinkEscape
  | NoManifest
  | CircularImport
  | MutableInPureMode
  | LockChangesDisallowed
  | LockWriteDidNotTakeEffect
  | CannotWriteLockFile
  | DanglingFollows
  | AssertionFailed
  | UndefinedBehaviour
  | EvalError
  | StoreError
  | FeatureDisabled

text \<open>
  A call either raises, leaving the mutable state as it was at the \<^verbatim>\<open>throw\<close>, or
  returns a value together with the state it leaves.
\<close>

datatype ('a, 's) outcome = Raised error 's | Ok 'a 's

section \<open>Fetcher inputs and trees (\<^verbatim>\<open>fetchers.cc\<close>)\<close>

type_synonym Path = string
type_synonym Hash = string
type_synonym Attrs = "(string \<times> string) list"

text \<open>
  \<^verbatim>\<open>fetchers::Input\<close>: the scheme specific attributes, and the expected NAR hash
  (\<^verbatim>\<open>std::optional<Hash> narHash\<close>, set by \<^verbatim>\<open>inputFromAttrs\<close>).
\<close>

record Input =
  attrs :: Attrs
  narHash :: "Hash option"

record TreeInfo =
  info_narHash :: "Hash option"
  revCount :: "nat option"
  lastModified :: "nat option"

record Tree =
  actualPath :: Path
  storePath :: Path
  info :: TreeInfo

text \<open>
  The store and the scheme backend that \<^verbatim>\<open>Input::fetchTree\<close> calls. Their
  implementations are outside \<^verbatim>\<open>fetchers.cc\<close>; they are parameters of the model.
  \<open>makeFixedOutputPath h\<close> stands for \<^verbatim>\<open>makeFixedOutputPath(true, h, "source")\<close>,
  \<open>ensurePath p\<close> is \<open>None\<close> when the path could be made valid and the error
  thrown otherwise, \<open>queryPathInfo p\<close> is the \<^verbatim>\<open>narHash\<close> field of the path info
  (or the error thrown for an invalid path), and \<open>fetchTreeInternal\<close> is the virtual
  method of the input's scheme.
\<close>

record Store =
  makeFixedOutputPath :: "Hash \<Rightarrow> Path"
  ensurePath :: "Path \<Rightarrow> error option"
  toRealPath :: "Path \<Rightarrow> Path"
  queryPathInfo :: "Path \<Rightarrow> error + Hash"
  fetchTreeInternal :: "Input \<Rightarrow> error + (Tree \<times> Input)"

text \<open>\<^verbatim>\<open>EvalState::allowedPaths\<close>, an optional set of paths.\<close>

type_synonym AllowedPaths = "Path set option"

definition allow :: "Path \<Rightarrow> AllowedPaths \<Rightarrow> AllowedPaths" where
  "allow p ap = (case ap of None \<Rightarrow> None | Some ps \<Rightarrow> Some (insert p ps))"

text \<open>\<^verbatim>\<open>Input::substituteTree\<close> (lines 56-78).\<close>

definition substituteTree :: "Store \<Rightarrow> Input \<Rightarrow> AllowedPaths \<Rightarrow> (Tree, AllowedPaths) outcome" where
  "substituteTree st inp ap =
     (case narHash inp of
        None \<Rightarrow> Raised AssertionFailed ap
      | Some h \<Rightarrow>
          (let sp = makeFixedOutputPath st h in
           case ensurePath st sp of
             Some e \<Rightarrow> Raised e ap
           | None \<Rightarrow>
               (let ap' = toRealPath st sp in
                Ok \<lparr> actualPath = ap', storePath = sp,
                     info = \<lparr> info_narHash = Some h, revCount = None, lastModified = None \<rparr> \<rparr>
                   (allow ap' ap))))"

text \<open>
  The part of \<^verbatim>\<open>Input::fetchTree\<close> after the substitution attempt (lines 91-109):
  the backend fetch, the defaults for \<^verbatim>\<open>actualPath\<close> and \<^verbatim>\<open>narHash\<close>, the
  assertion on the locked input's hash and the comparison with the expected hash.
\<close>

definition fetchTreeFresh ::
  "Store \<Rightarrow> Input \<Rightarrow> AllowedPaths \<Rightarrow> (Tree \<times> Input option, AllowedPaths) outcome" where
  "fetchTreeFresh st inp ap =
     (case fetchTreeInternal st inp of
        Inl e \<Rightarrow> Raised e ap
      | Inr (tree0, input) \<Rightarrow>
          (let tree1 = (if actualPath tree0 = [] then tree0\<lparr>actualPath := toRealPath st (storePath tree0)\<rparr>
                        else tree0);
               ap1 = allow (actualPath tree1) ap in
           case (case info_narHash (info tree1) of
                   Some h \<Rightarrow> Inr tree1
                 | None \<Rightarrow>
                     (case queryPathInfo st (storePath tree1) of
                        Inl e \<Rightarrow> Inl e
                      | Inr h \<Rightarrow> Inr (tree1\<lparr>info := (info tree1)\<lparr>info_narHash := Some h\<rparr>\<rparr>))) of
             Inl e \<Rightarrow> Raised e ap1
           | Inr tree \<Rightarrow>
               if narHash input \<noteq> None \<and> narHash input \<noteq> info_narHash (info tree)
                 then Raised AssertionFailed ap1
               else if narHash inp \<noteq> None \<and> narHash inp \<noteq> narHash input
                 then Raised HashMismatch ap1
               else Ok (tree, Some input) ap1))"

text \<open>
  \<^verbatim>\<open>Input::fetchTree\<close> (lines 80-110). With an expected hash the tree is first
  looked for in the store; an \<^verbatim>\<open>Error\<close> thrown there is caught and the input is
  fetched instead (a failed assertion aborts and is not caught). The second
  component of the result is \<^verbatim>\<open>std::nullopt\<close> for a substituted tree.
\<close>

definition Input_fetchTree ::
  "Store \<Rightarrow> Input \<Rightarrow> AllowedPaths \<Rightarrow> (Tree \<times> Input option, AllowedPaths) outcome" where
  "Input_fetchTree st inp ap =
     (if narHash inp \<noteq> None then
        (case substituteTree st inp ap of
           Ok tree ap' \<Rightarrow> Ok (tree, None) ap'
         | Raised e ap' \<Rightarrow>
             if e = AssertionFailed then Raised e ap' else fetchTreeFresh st inp ap')
      else fetchTreeFresh st inp ap)"

section \<open>Flake references, inputs and maps (\<^verbatim>\<open>flake.cc\<close>)\<close>

type_synonym FlakeId = string
type_synonym InputPath = "FlakeId list"

text \<open>
  \<^verbatim>\<open>FlakeRef\<close>: an input and the subdirectory of the manifest. Two references are
  equal when all their attributes are.
\<close>

record FlakeRef =
  input :: Input
  subdir :: string

text \<open>
  \<^verbatim>\<open>FlakeInput\<close>, with the defaults of its declaration (\<^verbatim>\<open>isFlake = true\<close>,
  \<^verbatim>\<open>absolute = false\<close>). \<^verbatim>\<open>FlakeInputs\<close> is a \<^verbatim>\<open>std::map\<close> from input ids
  to inputs: an association list with distinct keys in key order, which is the order
  in which the source iterates over it.
\<close>

datatype FlakeInput =
  FlakeInput (ref: "FlakeRef option") (isFlake: bool) (follows: "InputPath option")
    (absolute: bool) (overrides: "(FlakeId \<times> FlakeInput) list")

type_synonym FlakeInputs = "(FlakeId \<times> FlakeInput) list"

definition FlakeInput_default :: FlakeInput where
  "FlakeInput_default = FlakeInput None True None False []"

definition set_ref :: "FlakeRef option \<Rightarrow> FlakeInput \<Rightarrow> FlakeInput" where
  "set_ref r inp = FlakeInput r (isFlake inp) (follows inp) (absolute inp) (overrides inp)"

definition set_overrides :: "FlakeInputs \<Rightarrow> FlakeInput \<Rightarrow> FlakeInput" where
  "set_overrides ovs inp = FlakeInput (ref inp) (isFlake inp) (follows inp) (absolute inp) ovs"

subsection \<open>Operations of \<^verbatim>\<open>std::map\<close> on key-ordered association lists\<close>

definition erase :: "'k \<Rightarrow> ('k \<times> 'v) list \<Rightarrow> ('k \<times> 'v) list" where
  "erase k m = filter (\<lambda>kv. fst kv \<noteq> k) m"

text \<open>\<^verbatim>\<open>insert_or_assign\<close>: replace the value of an existing key, or insert in key order.\<close>

definition insert_or_assign :: "'k::linorder \<Rightarrow> 'v \<Rightarrow> ('k \<times> 'v) list \<Rightarrow> ('k \<times> 'v) list" where
  "insert_or_assign k v m =
     (if k \<in> fst ` set m then map (\<lambda>kv. if fst kv = k then (k, v) else kv) m
      else insort_key fst (k, v) m)"

text \<open>\<^verbatim>\<open>emplace\<close>: insert in key order unless the key is present.\<close>

definition emplace :: "'k::linorder \<Rightarrow> 'v \<Rightarrow> ('k \<times> 'v) list \<Rightarrow> ('k \<times> 'v) list" where
  "emplace k v m = (if k \<in> fst ` set m then m else insort_key fst (k, v) m)"

subsection \<open>Overrides\<close>

text \<open>
  \<^verbatim>\<open>setOverride\<close> (lines 18-28). \<open>setOverrideFrom\<close> is the walk from the element
  \<open>i\<close> of the path that the iterator points to, with \<open>rest\<close> the elements after
  it: \<^verbatim>\<open>emplace(*pathIter, FlakeInput())\<close> finds the node of \<open>i\<close> or creates a
  default one, the walk goes on in the overrides of that node, and the last node
  gets the reference. \<^verbatim>\<open>setOverride\<close> dereferences \<^verbatim>\<open>path.begin()\<close> without a
  check, which for the empty path has no defined behaviour.
\<close>

fun setOverrideFrom :: "FlakeInputs \<Rightarrow> FlakeId \<Rightarrow> InputPath \<Rightarrow> FlakeRef \<Rightarrow> FlakeInputs" where
  "setOverrideFrom ovs i [] r =
     (let node = (case map_of ovs i of Some n \<Rightarrow> n | None \<Rightarrow> FlakeInput_default)
      in insert_or_assign i (set_ref (Some r) node) ovs)"
| "setOverrideFrom ovs i (j # rest) r =
     (let node = (case map_of ovs i of Some n \<Rightarrow> n | None \<Rightarrow> FlakeInput_default)
      in insert_or_assign i (set_overrides (setOverrideFrom (overrides node) j rest r) node) ovs)"

definition setOverride :: "FlakeInputs \<Rightarrow> InputPath \<Rightarrow> FlakeRef \<Rightarrow> error + FlakeInputs" where
  "setOverride ovs path r =
     (case path of
        [] \<Rightarrow> Inl UndefinedBehaviour
      | i # rest \<Rightarrow> Inr (setOverrideFrom ovs i rest r))"

text \<open>
  Lines 325-330 of \<^verbatim>\<open>lockFlake\<close>: the overrides of the flags are entered one by
  one, in the order of the map.
\<close>

fun enterOverrides :: "(InputPath \<times> FlakeRef) list \<Rightarrow> FlakeInputs \<Rightarrow> error + FlakeInputs" where
  "enterOverrides [] ovs = Inr ovs"
| "enterOverrides (pr # rest) ovs =
     (case setOverride ovs (fst pr) (snd pr) of
        Inl e \<Rightarrow> Inl e
      | Inr ovs' \<Rightarrow> enterOverrides rest ovs')"

text \<open>
  \<^verbatim>\<open>FlakeInput::setOverrides\<close> (lines 54-71), as a function from the overrides of
  \<^verbatim>\<open>this\<close> and the new overrides to the merged overrides: a new entry replaces the
  reference of an existing one when it carries a reference, and its children are
  merged recursively; an entry for a new id is moved over as it is.
\<close>

function setOverrides :: "FlakeInputs \<Rightarrow> FlakeInputs \<Rightarrow> FlakeInputs" where
  "setOverrides ovs [] = ovs"
| "setOverrides ovs ((i, child) # newOverrides) =
     (case map_of ovs i of
        Some existing \<Rightarrow>
          setOverrides
            (insert_or_assign i
               (set_overrides (setOverrides (overrides existing) (overrides child))
                  (if ref child \<noteq> None then set_ref (ref child) existing else existing))
               ovs)
            newOverrides
      | None \<Rightarrow> setOverrides (insert_or_assign i child ovs) newOverrides)"
  by pat_completeness auto

lemma size_overrides_less:
  "size_list (size_prod (\<lambda>_. 0) size) (overrides inp) < size inp"
  by (cases inp) simp

lemma size_overrides_bound:
  "size_list (size_prod (\<lambda>_. 0) size) (overrides inp) \<le> Suc (size inp + n)"
  "2 * size_list (size_prod (\<lambda>_. 0) size) (overrides inp) \<le> Suc (Suc (2 * size inp + n))"
  using size_overrides_less[of inp] by linarith+

termination setOverrides
  by (relation "measure (\<lambda>(ovs, new). size_list (size_prod (\<lambda>_. 0) size) new)")
    (auto simp: less_Suc_eq_le size_overrides_bound)

text \<open>
  Modelled from the spec: \<^verbatim>\<open>printInputPath\<close> is defined in \<^verbatim>\<open>lockfile.cc\<close>, which
  is not among the sources; the specification calls its result a dotted input path.
\<close>

fun printInputPath :: "InputPath \<Rightarrow> string" where
  "printInputPath [] = []"
| "printInputPath [i] = i"
| "printInputPath (i # rest) = i @ ''.'' @ printInputPath rest"

text \<open>
  \<^verbatim>\<open>printOverrides\<close> (lines 30-52). The loop carries the stream \<open>ret\<close> and the flag
  \<open>first\<close>; \<open>sh\<close> is \<^verbatim>\<open>operator<<\<close> of \<^verbatim>\<open>FlakeRef\<close>.
\<close>

function printOverrides :: "(FlakeRef \<Rightarrow> string) \<Rightarrow> FlakeInputs \<Rightarrow> InputPath \<Rightarrow> string"
  and printOverridesLoop ::
    "(FlakeRef \<Rightarrow> string) \<Rightarrow> FlakeInputs \<Rightarrow> InputPath \<Rightarrow> string \<Rightarrow> bool \<Rightarrow> string \<times> bool"
where
  "printOverrides sh ovs inputPathPrefix = fst (printOverridesLoop sh ovs inputPathPrefix [] True)"
| "printOverridesLoop sh [] inputPathPrefix ret first = (ret, first)"
| "printOverridesLoop sh ((i, override) # rest) inputPathPrefix ret first =
     (let inputPath = inputPathPrefix @ [i];
          ret1 = (case ref override of
                    Some r \<Rightarrow> (if first then ret else ret @ '', '') @ printInputPath inputPath @ ''='' @ sh r
                  | None \<Rightarrow> ret);
          first1 = (first \<and> ref override = None);
          childrenOverrides = printOverrides sh (overrides override) inputPath;
          ret2 = (if childrenOverrides \<noteq> [] then (if first1 then ret1 else ret1 @ '', '') @ childrenOverrides
                  else ret1);
          first2 = (first1 \<and> childrenOverrides = [])
      in printOverridesLoop sh rest inputPathPrefix ret2 first2)"
  by pat_completeness auto

termination printOverrides
  by (relation "measure (\<lambda>x. case x of
          Inl (sh, ovs, p) \<Rightarrow> 2 * size_list (size_prod (\<lambda>_. 0) size) ovs + 1
        | Inr (sh, ovs, p, ret, first) \<Rightarrow> 2 * size_list (size_prod (\<lambda>_. 0) size) ovs)")
    (auto simp: less_Suc_eq_le size_overrides_bound)

section \<open>Lock files, the world and the solver state\<close>

text \<open>
  \<^verbatim>\<open>LockedNode\<close>: the locked and the original reference, the flake flag and the
  children. An edge is a \<^verbatim>\<open>std::variant\<close> with a locked node at index 0 (\<open>Inl\<close>)
  and a follows path at index 1 (\<open>Inr\<close>). The base class \<^verbatim>\<open>Node\<close> has the map
  \<^verbatim>\<open>inputs\<close> only, so a \<open>Node\<close> is that map. The constructor of \<^verbatim>\<open>LockedNode\<close>
  takes the flake flag last, with default \<^verbatim>\<open>true\<close>, and creates no children.
\<close>

datatype LockedNode =
  LockedNode (lockedRef: FlakeRef) (originalRef: FlakeRef) (nodeIsFlake: bool)
    (nodeInputs: "(FlakeId \<times> (LockedNode + InputPath)) list")

type_synonym Edge = "LockedNode + InputPath"
type_synonym Node = "(FlakeId \<times> Edge) list"

record LockFile =
  root :: Node

type_synonym FetchedFlake = "Tree \<times> FlakeRef"
type_synonym FlakeCache = "(FlakeRef \<times> FetchedFlake) list"

text \<open>Evaluated values of the manifest, as far as \<^verbatim>\<open>getFlake\<close> inspects them.\<close>

datatype Value =
    VInt int
  | VBool bool
  | VString string
  | VAttrs "(string \<times> Value) list"
  | VLambda (matchAttrs: bool) (formals: "string list")

datatype ValueType = tInt | tBool | tString | tAttrs | tLambda

fun typeOf :: "Value \<Rightarrow> ValueType" where
  "typeOf (VInt _) = tInt"
| "typeOf (VBool _) = tBool"
| "typeOf (VString _) = tString"
| "typeOf (VAttrs _) = tAttrs"
| "typeOf (VLambda _ _) = tLambda"

datatype warning =
    DeprecatedEdition FlakeRef
  | UnusedOverrides string
  | UnusedUpdateFlag InputPath
  | MutableInputNoWrite FlakeRef
  | UpdatingLockFile Path string
  | CreatingLockFile Path
  | CommittedRevision Hash
  | NotWritingLockFile FlakeRef string

text \<open>
  What \<^verbatim>\<open>flake.cc\<close> calls and does not define: the methods of the reference and of
  its scheme, the registry, the parsers of \<^verbatim>\<open>flakeref.cc\<close> and \<^verbatim>\<open>lockfile.cc\<close>,
  \<^verbatim>\<open>chomp\<close> of the utilities, the file system, the evaluator and two settings. \<open>fetchTree\<close> is
  \<^verbatim>\<open>FlakeRef::fetchTree\<close>; it sees the lock files written so far, because writing
  the lock file changes the top-level source. \<open>hasOverride_uninit p\<close> is the value
  read from the local \<^verbatim>\<open>bool hasOverride\<close> of line 364, which is declared
  without initialiser, in the iteration for the input path \<open>p\<close> when nothing was
  assigned to it.
\<close>

record World =
  flakesEnabled :: bool
  warnDirty :: bool
  isDirect :: "Input \<Rightarrow> bool"
  isImmutable :: "Input \<Rightarrow> bool"
  resolve :: "FlakeRef \<Rightarrow> error + FlakeRef"
  fetchTree :: "(Path \<times> LockFile) list \<Rightarrow> FlakeRef \<Rightarrow> error + FetchedFlake"
  computeStorePath :: "Input \<Rightarrow> Path"
  getSourcePath :: "Input \<Rightarrow> Path option"
  getRev :: "Input \<Rightarrow> Hash option"
  showFlakeRef :: "FlakeRef \<Rightarrow> string"
  parseFlakeRef :: "string \<Rightarrow> error + FlakeRef"
  fromAttrs :: "Attrs \<Rightarrow> error + FlakeRef"
  parseInputPath :: "string \<Rightarrow> error + InputPath"
  canonPath :: "Path \<Rightarrow> Path"
  isInDir :: "Path \<Rightarrow> Path \<Rightarrow> bool"
  pathExists :: "Path \<Rightarrow> bool"
  evalFile :: "Path \<Rightarrow> error + Value"
  readLockFile :: "Path \<Rightarrow> error + LockFile"
  diffLockFile :: "LockFile \<Rightarrow> LockFile \<Rightarrow> string"
  chomp :: "string \<Rightarrow> string"
  hasOverride_uninit :: "InputPath \<Rightarrow> bool"

text \<open>
  The mutable state: the locals of \<^verbatim>\<open>lockFlake\<close> that its closure captures by
  reference (\<open>flakeCache\<close>, \<open>parents\<close>, \<open>updatesUsed\<close>), the allowed paths of the
  evaluator, and the effects on the outside: the warnings printed, the references
  handed to \<^verbatim>\<open>FlakeRef::fetchTree\<close>, the lock files written and the files marked
  as changed (with the commit message: relative path, whether the file existed, and
  the diff).
\<close>

record SolverState =
  flakeCache :: FlakeCache
  parents :: "FlakeRef list"
  updatesUsed :: "InputPath set"
  allowedPaths :: AllowedPaths
  warnings :: "warning list"
  fetched :: "FlakeRef list"
  written :: "(Path \<times> LockFile) list"
  changed :: "(Path \<times> (Path \<times> bool \<times> string) option) list"

definition warn :: "warning \<Rightarrow> SolverState \<Rightarrow> SolverState" where
  "warn w s = s\<lparr>warnings := warnings s @ [w]\<rparr>"

section \<open>The fetch cache\<close>

text \<open>\<^verbatim>\<open>lookupInFlakeCache\<close> (lines 73-87): the first entry with an equal key.\<close>

fun lookupInFlakeCache :: "FlakeCache \<Rightarrow> FlakeRef \<Rightarrow> FetchedFlake option" where
  "lookupInFlakeCache [] flakeRef = None"
| "lookupInFlakeCache (i # rest) flakeRef =
     (if flakeRef = fst i then Some (snd i) else lookupInFlakeCache rest flakeRef)"

text \<open>A call of \<^verbatim>\<open>FlakeRef::fetchTree\<close>; the call is recorded in \<open>fetched\<close>.\<close>

definition callFetchTree :: "World \<Rightarrow> FlakeRef \<Rightarrow> SolverState \<Rightarrow> (FetchedFlake, SolverState) outcome" where
  "callFetchTree W r s =
     (let s' = s\<lparr>fetched := fetched s @ [r]\<rparr> in
      case fetchTree W (written s) r of Inl e \<Rightarrow> Raised e s' | Inr f \<Rightarrow> Ok f s')"

text \<open>
  The end of \<^verbatim>\<open>fetchOrSubstituteTree\<close> (lines 116-126): the tree's path is added to
  the allowed paths, and the store path is asserted to be the one computed from
  the expected hash, when the reference has one.
\<close>

definition returnFetched ::
  "World \<Rightarrow> FlakeRef \<Rightarrow> FlakeRef \<Rightarrow> FetchedFlake \<Rightarrow> SolverState
     \<Rightarrow> (Tree \<times> FlakeRef \<times> FlakeRef, SolverState) outcome" where
  "returnFetched W origRef resolvedRef fetchedFlake s =
     (let tree = fst fetchedFlake; lockRef = snd fetchedFlake;
          s' = s\<lparr>allowedPaths := allow (actualPath tree) (allowedPaths s)\<rparr> in
      if narHash (input origRef) \<noteq> None \<and> storePath tree \<noteq> computeStorePath W (input origRef)
        then Raised AssertionFailed s'
      else Ok (tree, resolvedRef, lockRef) s')"

text \<open>
  \<^verbatim>\<open>fetchOrSubstituteTree\<close> (lines 89-127). For an indirect reference the second
  lookup, line 104, is made with \<^verbatim>\<open>originalRef\<close> again.
\<close>

definition fetchOrSubstituteTree ::
  "World \<Rightarrow> FlakeRef \<Rightarrow> bool \<Rightarrow> SolverState \<Rightarrow> (Tree \<times> FlakeRef \<times> FlakeRef, SolverState) outcome" where
  "fetchOrSubstituteTree W origRef allowLookup s =
     (case lookupInFlakeCache (flakeCache s) origRef of
        Some f \<Rightarrow> returnFetched W origRef origRef f s
      | None \<Rightarrow>
          if isDirect W (input origRef) then
            (case callFetchTree W origRef s of
               Raised e s1 \<Rightarrow> Raised e s1
             | Ok f s1 \<Rightarrow>
                 returnFetched W origRef origRef f
                   (s1\<lparr>flakeCache := flakeCache s1 @ [(origRef, f)]\<rparr>))
          else if allowLookup then
            (case resolve W origRef of
               Inl e \<Rightarrow> Raised e s
             | Inr resolvedRef \<Rightarrow>
                 (case (case lookupInFlakeCache (flakeCache s) origRef of
                          Some f \<Rightarrow> Ok f s
                        | None \<Rightarrow> callFetchTree W resolvedRef s) of
                    Raised e s1 \<Rightarrow> Raised e s1
                  | Ok fetchedResolved s1 \<Rightarrow>
                      returnFetched W origRef resolvedRef fetchedResolved
                        (s1\<lparr>flakeCache := flakeCache s1
                              @ [(resolvedRef, fetchedResolved), (origRef, fetchedResolved)]\<rparr>)))
          else Raised RegistryLookupDisallowed s)"

section \<open>The manifest loader\<close>

text \<open>
  \<^verbatim>\<open>Flake\<close>: the three references, the fetched tree, the description, the declared
  inputs and the handle of the outputs function.
\<close>

record Flake =
  flake_originalRef :: FlakeRef
  flake_resolvedRef :: FlakeRef
  flake_lockedRef :: FlakeRef
  sourceInfo :: Tree
  description :: "string option"
  inputs :: FlakeInputs
  vOutputs :: "Value option"

definition set_isFlake :: "bool \<Rightarrow> FlakeInput \<Rightarrow> FlakeInput" where
  "set_isFlake b inp = FlakeInput (ref inp) b (follows inp) (absolute inp) (overrides inp)"

definition set_follows :: "InputPath option \<Rightarrow> FlakeInput \<Rightarrow> FlakeInput" where
  "set_follows f inp = FlakeInput (ref inp) (isFlake inp) f (absolute inp) (overrides inp)"

text \<open>
  The attributes \<^verbatim>\<open>{{"type", "indirect"}, {"id", name}}\<close> of line 201, in the key
  order of the attribute map, and the reference that \<^verbatim>\<open>FlakeRef::fromAttrs\<close> makes
  of them: the default indirect reference of that name.
\<close>

definition indirectAttrs :: "string \<Rightarrow> Attrs" where
  "indirectAttrs name = [(''id'', name), (''type'', ''indirect'')]"

definition defaultIndirectRef :: "World \<Rightarrow> string \<Rightarrow> error + FlakeRef" where
  "defaultIndirectRef W name = fromAttrs W (indirectAttrs name)"

text \<open>
  Modelled from the spec: \<^verbatim>\<open>parseFlakeRef\<close> is defined in \<^verbatim>\<open>flakeref.cc\<close>, which is
  not among the sources. Line 280 applies it to the bare name of a formal of the
  outputs function, and the specification says of that call that the formal is
  injected "with a default indirect reference of the same name". Flake references
  written by the user as a URL (line 197) go through the parser of the world.
\<close>

definition parseFlakeRef_name :: "World \<Rightarrow> string \<Rightarrow> error + FlakeRef" where
  "parseFlakeRef_name W name = defaultIndirectRef W name"

text \<open>
  The end of \<^verbatim>\<open>parseFlakeInput\<close> (lines 185-203): the reference is built from the
  attributes when there is a \<^verbatim>\<open>type\<close>, else from the URL, and defaults to the
  indirect reference of the input's name.
\<close>

definition finishFlakeInput ::
  "World \<Rightarrow> string \<Rightarrow> bool \<Rightarrow> FlakeInput \<Rightarrow> Attrs \<Rightarrow> string option \<Rightarrow> error + FlakeInput" where
  "finishFlakeInput W inputName defaultRef inp as url =
     (case (if map_of as ''type'' \<noteq> None then
              (case fromAttrs W as of Inl e \<Rightarrow> Inl e | Inr r \<Rightarrow> Inr (set_ref (Some r) inp))
            else if erase ''url'' as \<noteq> [] then Inl MalformedManifest
            else (case url of
                    None \<Rightarrow> Inr inp
                  | Some u \<Rightarrow>
                      (case parseFlakeRef W u of Inl e \<Rightarrow> Inl e | Inr r \<Rightarrow> Inr (set_ref (Some r) inp)))) of
        Inl e \<Rightarrow> Inl e
      | Inr inp' \<Rightarrow>
          if follows inp' = None \<and> ref inp' = None \<and> defaultRef then
            (case defaultIndirectRef W inputName of
               Inl e \<Rightarrow> Inl e
             | Inr r \<Rightarrow> Inr (set_ref (Some r) inp'))
          else Inr inp')"

text \<open>
  \<^verbatim>\<open>parseFlakeInput\<close> and \<^verbatim>\<open>parseFlakeInputs\<close> (lines 142-223), each with its loop
  over the attributes. \<^verbatim>\<open>expectType\<close> and the \<^verbatim>\<open>TypeError\<close> of line 176 are the
  branches that give \<open>MalformedManifest\<close>.
\<close>

function parseFlakeInput :: "World \<Rightarrow> string \<Rightarrow> Value \<Rightarrow> bool \<Rightarrow> error + FlakeInput"
  and parseInputAttrs ::
    "World \<Rightarrow> (string \<times> Value) list \<Rightarrow> FlakeInput \<Rightarrow> Attrs \<Rightarrow> string option
       \<Rightarrow> error + (FlakeInput \<times> Attrs \<times> string option)"
  and parseFlakeInputs :: "World \<Rightarrow> Value \<Rightarrow> bool \<Rightarrow> error + FlakeInputs"
  and parseInputsLoop :: "World \<Rightarrow> (string \<times> Value) list \<Rightarrow> bool \<Rightarrow> FlakeInputs \<Rightarrow> error + FlakeInputs"
where
  "parseFlakeInput W inputName v defaultRef =
     (case v of
        VAttrs as \<Rightarrow>
          (case parseInputAttrs W as FlakeInput_default [] None of
             Inl e \<Rightarrow> Inl e
           | Inr (inp, as', url) \<Rightarrow> finishFlakeInput W inputName defaultRef inp as' url)
      | _ \<Rightarrow> Inl MalformedManifest)"
| "parseInputAttrs W [] inp as url = Inr (inp, as, url)"
| "parseInputAttrs W ((name, v) # rest) inp as url =
     (if name = ''url'' then
        (case v of
           VString s \<Rightarrow> parseInputAttrs W rest inp (emplace ''url'' s as) (Some s)
         | _ \<Rightarrow> Inl MalformedManifest)
      else if name = ''flake'' then
        (case v of
           VBool b \<Rightarrow> parseInputAttrs W rest (set_isFlake b inp) as url
         | _ \<Rightarrow> Inl MalformedManifest)
      else if name = ''inputs'' then
        (case parseFlakeInputs W v False of
           Inl e \<Rightarrow> Inl e
         | Inr ovs \<Rightarrow> parseInputAttrs W rest (set_overrides ovs inp) as url)
      else if name = ''follows'' then
        (case v of
           VString s \<Rightarrow>
             (case parseInputPath W s of
                Inl e \<Rightarrow> Inl e
              | Inr p \<Rightarrow> parseInputAttrs W rest (set_follows (Some p) inp) as url)
         | _ \<Rightarrow> Inl MalformedManifest)
      else
        (case v of
           VString s \<Rightarrow> parseInputAttrs W rest inp (emplace name s as) url
         | _ \<Rightarrow> Inl MalformedManifest))"
| "parseFlakeInputs W v defaultRef =
     (case v of
        VAttrs as \<Rightarrow> parseInputsLoop W as defaultRef []
      | _ \<Rightarrow> Inl MalformedManifest)"
| "parseInputsLoop W [] defaultRef ins = Inr ins"
| "parseInputsLoop W ((name, v) # rest) defaultRef ins =
     (case parseFlakeInput W name v defaultRef of
        Inl e \<Rightarrow> Inl e
      | Inr inp \<Rightarrow> parseInputsLoop W rest defaultRef (emplace name inp ins))"
  by pat_completeness auto

termination parseFlakeInput
  by (relation "measure (\<lambda>x. case x of
          Inl (Inl (W, n, v, d)) \<Rightarrow> size v
        | Inl (Inr (W, as, inp, bs, url)) \<Rightarrow> size_list (size_prod (\<lambda>_. 0) size) as
        | Inr (Inl (W, v, d)) \<Rightarrow> size v
        | Inr (Inr (W, as, d, ins)) \<Rightarrow> size_list (size_prod (\<lambda>_. 0) size) as)")
    auto

text \<open>
  The loop over the formals of the outputs function (lines 277-282): the reference
  is parsed first, then \<^verbatim>\<open>emplace\<close> adds the input unless the name is declared.
\<close>

fun injectFormals :: "World \<Rightarrow> string list \<Rightarrow> FlakeInputs \<Rightarrow> error + FlakeInputs" where
  "injectFormals W [] ins = Inr ins"
| "injectFormals W (formal # rest) ins =
     (if formal \<noteq> ''self'' then
        (case parseFlakeRef_name W formal of
           Inl e \<Rightarrow> Inl e
         | Inr r \<Rightarrow> injectFormals W rest (emplace formal (FlakeInput (Some r) True None False []) ins))
      else injectFormals W rest ins)"

text \<open>The description (lines 260-263).\<close>

definition parseDescription :: "(string \<times> Value) list \<Rightarrow> Flake \<Rightarrow> error + Flake" where
  "parseDescription vInfo flake =
     (case map_of vInfo ''description'' of
        None \<Rightarrow> Inr flake
      | Some (VString s) \<Rightarrow> Inr (flake\<lparr>description := Some s\<rparr>)
      | Some _ \<Rightarrow> Inl MalformedManifest)"

text \<open>The inputs block (lines 267-268); without one the inputs stay empty.\<close>

definition parseInputsBlock :: "World \<Rightarrow> (string \<times> Value) list \<Rightarrow> error + FlakeInputs" where
  "parseInputsBlock W vInfo =
     (case map_of vInfo ''inputs'' of
        None \<Rightarrow> Inr []
      | Some v \<Rightarrow> parseFlakeInputs W v True)"

text \<open>The outputs function and its formals (lines 272-286).\<close>

definition parseOutputs :: "World \<Rightarrow> (string \<times> Value) list \<Rightarrow> Flake \<Rightarrow> error + Flake" where
  "parseOutputs W vInfo flake =
     (case map_of vInfo ''outputs'' of
        None \<Rightarrow> Inl MalformedManifest
      | Some (VLambda m fs) \<Rightarrow>
          (case (if m then injectFormals W fs (inputs flake) else Inr (inputs flake)) of
             Inl e \<Rightarrow> Inl e
           | Inr ins \<Rightarrow> Inr (flake\<lparr>inputs := ins, vOutputs := Some (VLambda m fs)\<rparr>))
      | Some _ \<Rightarrow> Inl MalformedManifest)"

text \<open>The check for unsupported attributes (lines 288-295).\<close>

definition supportedAttrs :: "(string \<times> Value) list \<Rightarrow> bool" where
  "supportedAttrs vInfo =
     list_all (\<lambda>a. fst a = ''edition'' \<or> fst a = ''description'' \<or> fst a = ''inputs'' \<or> fst a = ''outputs'') vInfo"

text \<open>Lines 260-297 of \<^verbatim>\<open>getFlake\<close>, on the attributes of the evaluated manifest.\<close>

definition parseManifest :: "World \<Rightarrow> (string \<times> Value) list \<Rightarrow> Flake \<Rightarrow> error + Flake" where
  "parseManifest W vInfo flake =
     (case parseDescription vInfo flake of
        Inl e \<Rightarrow> Inl e
      | Inr flake1 \<Rightarrow>
          (case parseInputsBlock W vInfo of
             Inl e \<Rightarrow> Inl e
           | Inr ins \<Rightarrow>
               (case parseOutputs W vInfo (flake1\<lparr>inputs := ins\<rparr>) of
                  Inl e \<Rightarrow> Inl e
                | Inr flake2 \<Rightarrow>
                    if supportedAttrs vInfo then Inr flake2 else Inl MalformedManifest)))"

text \<open>\<^verbatim>\<open>getFlake\<close> (lines 225-298).\<close>

definition getFlake :: "World \<Rightarrow> FlakeRef \<Rightarrow> bool \<Rightarrow> SolverState \<Rightarrow> (Flake, SolverState) outcome" where
  "getFlake W origRef allowLookup s =
     (case fetchOrSubstituteTree W origRef allowLookup s of
        Raised e s1 \<Rightarrow> Raised e s1
      | Ok (srcInfo, resolvedRef, lockRef) s1 \<Rightarrow>
          (let flakeFile = canonPath W (actualPath srcInfo @ ''/'' @ subdir lockRef @ ''/flake.nix'') in
           if \<not> isInDir W flakeFile (actualPath srcInfo) then Raised SymlinkEscape s1
           else if \<not> pathExists W flakeFile then Raised NoManifest s1
           else
             (case evalFile W flakeFile of
                Inl e \<Rightarrow> Raised e s1
              | Inr (VAttrs vInfo) \<Rightarrow>
                  (let s2 = (if map_of vInfo ''edition'' \<noteq> None then warn (DeprecatedEdition lockRef) s1 else s1) in
                   case parseManifest W vInfo
                          \<lparr> flake_originalRef = origRef, flake_resolvedRef = resolvedRef,
                            flake_lockedRef = lockRef, sourceInfo = srcInfo, description = None,
                            inputs = [], vOutputs = None \<rparr> of
                     Inl e \<Rightarrow> Raised e s2
                   | Inr flake \<Rightarrow> Ok flake s2)
              | Inr _ \<Rightarrow> Raised MalformedManifest s1)))"

section \<open>The lock solver\<close>

text \<open>
  \<^verbatim>\<open>LockFlags\<close>. \<open>inputOverrides\<close> is a \<^verbatim>\<open>std::map\<close> and \<open>inputUpdates\<close> a
  \<^verbatim>\<open>std::set\<close> of input paths: lists in key order.
\<close>

record LockFlags =
  recreateLockFile :: bool
  updateLockFile :: bool
  writeLockFile :: bool
  useRegistries :: bool
  allowMutable :: bool
  commitLockFile :: bool
  inputOverrides :: "(InputPath \<times> FlakeRef) list"
  inputUpdates :: "InputPath list"

text \<open>
  The result of \<^verbatim>\<open>computeLocks\<close>: \<open>None\<close> when the recursion is deeper than the
  fuel, else an exception or the three objects that the call has changed through
  its reference parameters: the inputs of \<^verbatim>\<open>node\<close>, \<^verbatim>\<open>flakeInputs\<close> and
  \<^verbatim>\<open>overrides\<close>. \<open>Rec\<close> is the type of the recursive call.
\<close>

type_synonym LocksResult = "(Node \<times> FlakeInputs \<times> FlakeInputs, SolverState) outcome option"
type_synonym StepResult = "(Node \<times> FlakeInput \<times> FlakeInputs, SolverState) outcome option"
type_synonym Rec = "FlakeInputs \<Rightarrow> InputPath \<Rightarrow> Node option \<Rightarrow> FlakeInputs \<Rightarrow> SolverState \<Rightarrow> LocksResult"

text \<open>
  Lines 363-373. \<^verbatim>\<open>input\<close> is a reference to \<^verbatim>\<open>originalInput\<close>, so there is one
  object: the result is that object after the assignments, the value of
  \<^verbatim>\<open>hasOverride\<close>, and the overrides without the extracted entry. \<^verbatim>\<open>hasOverride\<close>
  is assigned only where an override with a reference was found.
\<close>

definition applyOverride ::
  "World \<Rightarrow> InputPath \<Rightarrow> FlakeId \<Rightarrow> FlakeInput \<Rightarrow> FlakeInputs \<Rightarrow> FlakeInput \<times> bool \<times> FlakeInputs" where
  "applyOverride W inputPath i originalInput ovs =
     (case map_of ovs i of
        None \<Rightarrow> (originalInput, hasOverride_uninit W inputPath, ovs)
      | Some m \<Rightarrow>
          (let inp1 = (if ref m \<noteq> None then set_ref (ref m) originalInput else originalInput);
               hasOverride = (if ref m \<noteq> None then True else hasOverride_uninit W inputPath)
           in (set_overrides (setOverrides (overrides inp1) (overrides m)) inp1, hasOverride, erase i ovs)))"

text \<open>Lines 378-387: the target of a follows edge.\<close>

definition followsTarget :: "InputPath \<Rightarrow> InputPath \<Rightarrow> bool \<Rightarrow> bool \<Rightarrow> InputPath" where
  "followsTarget inputPathPrefix f hasOverride isAbsolute =
     (if hasOverride \<or> isAbsolute then f else inputPathPrefix @ f)"

text \<open>Lines 397-404: the locked node of the old lock file, unless the input is to be updated.\<close>

definition getOldLock :: "LockFlags \<Rightarrow> Node option \<Rightarrow> InputPath \<Rightarrow> FlakeId \<Rightarrow> LockedNode option" where
  "getOldLock F oldNode inputPath i =
     (case oldNode of
        None \<Rightarrow> None
      | Some n \<Rightarrow>
          if inputPath \<in> set (inputUpdates F) then None
          else (case map_of n i of Some (Inl l) \<Rightarrow> Some l | _ \<Rightarrow> None))"

text \<open>
  Lines 423-428: \<^verbatim>\<open>lower_bound\<close> is the first update path that is not less than
  \<open>inputPath\<close>; it has to be longer and to start with \<open>inputPath\<close>.
\<close>

definition hasChildUpdate :: "LockFlags \<Rightarrow> InputPath \<Rightarrow> bool" where
  "hasChildUpdate F inputPath =
     (case find (\<lambda>u. \<not> u < inputPath) (inputUpdates F) of
        None \<Rightarrow> False
      | Some lb \<Rightarrow> length lb > length inputPath \<and> take (length inputPath) lb = inputPath)"

text \<open>Lines 439-453: the inputs reconstructed from the children of the old locked node.\<close>

definition fakeInput :: "Edge \<Rightarrow> FlakeInput" where
  "fakeInput e =
     (case e of
        Inl lockedNode \<Rightarrow> FlakeInput (Some (originalRef lockedNode)) (nodeIsFlake lockedNode) None False []
      | Inr f \<Rightarrow> FlakeInput None True (Some f) True [])"

definition fakeInputs :: "LockedNode \<Rightarrow> FlakeInputs" where
  "fakeInputs oldLock = foldl (\<lambda>acc ie. emplace (fst ie) (fakeInput (snd ie)) acc) [] (nodeInputs oldLock)"

text \<open>Lines 509-513: the warning about the overrides that were not extracted.\<close>

definition warnUnusedOverrides :: "World \<Rightarrow> FlakeInputs \<Rightarrow> InputPath \<Rightarrow> SolverState \<Rightarrow> SolverState" where
  "warnUnusedOverrides W ovs inputPathPrefix s =
     (let unused = printOverrides (showFlakeRef W) ovs inputPathPrefix in
      if unused \<noteq> [] then warn (UnusedOverrides unused) s else s)"

text \<open>
  After a recursive call for the child of input \<open>i\<close>: the child node, which was
  inserted into \<^verbatim>\<open>node->inputs\<close> before the call, has the inputs that the call has
  given it, and \<^verbatim>\<open>input.overrides\<close>, which the call received by reference, is what
  the call has left of it. The inputs of the child flake are a local of the caller.
\<close>

definition attachChild ::
  "FlakeId \<Rightarrow> LockedNode \<Rightarrow> FlakeInput \<Rightarrow> FlakeInputs \<Rightarrow> Node \<Rightarrow> LocksResult \<Rightarrow> StepResult" where
  "attachChild i childNode inp ovs node r =
     (case r of
        None \<Rightarrow> None
      | Some (Raised e s) \<Rightarrow> Some (Raised e s)
      | Some (Ok (childInputs, childFlakeInputs, ovs') s) \<Rightarrow>
          Some (Ok (insert_or_assign i
                      (Inl (LockedNode (lockedRef childNode) (originalRef childNode)
                              (nodeIsFlake childNode) childInputs)) node,
                    set_overrides ovs' inp, ovs) s))"

text \<open>The reuse path (lines 410-456).\<close>

definition lockReuse ::
  "Rec \<Rightarrow> World \<Rightarrow> LockFlags \<Rightarrow> InputPath \<Rightarrow> FlakeId \<Rightarrow> FlakeInput \<Rightarrow> FlakeInputs \<Rightarrow> Node
     \<Rightarrow> LockedNode \<Rightarrow> SolverState \<Rightarrow> StepResult" where
  "lockReuse rec W F inputPath i inp ovs node oldLock s =
     (let childNode = LockedNode (lockedRef oldLock) (originalRef oldLock) (nodeIsFlake oldLock) [] in
      if hasChildUpdate F inputPath then
        (case getFlake W (lockedRef oldLock) False s of
           Raised e s1 \<Rightarrow> Some (Raised e s1)
         | Ok inputFlake s1 \<Rightarrow>
             attachChild i childNode inp ovs node
               (rec (inputs inputFlake) inputPath (Some (nodeInputs oldLock)) (overrides inp) s1))
      else
        attachChild i childNode inp ovs node
          (rec (fakeInputs oldLock) inputPath (Some (nodeInputs oldLock)) (overrides inp) s))"

text \<open>\<^verbatim>\<open>Finally cleanup([&]() { parents.pop_back(); })\<close>: runs on return and on exception.\<close>

definition popParent :: "StepResult \<Rightarrow> StepResult" where
  "popParent r =
     (case r of
        None \<Rightarrow> None
      | Some (Raised e s) \<Rightarrow> Some (Raised e (s\<lparr>parents := butlast (parents s)\<rparr>))
      | Some (Ok x s) \<Rightarrow> Some (Ok x (s\<lparr>parents := butlast (parents s)\<rparr>)))"

text \<open>
  The baseline of the recursive call on the fresh path (lines 494-497): the old
  locked node, or the root of the lock file of the fetched flake.
\<close>

definition freshBaseline :: "World \<Rightarrow> LockedNode option \<Rightarrow> Flake \<Rightarrow> error + Node" where
  "freshBaseline W oldLock inputFlake =
     (case oldLock of
        Some l \<Rightarrow> Inr (nodeInputs l)
      | None \<Rightarrow>
          (case readLockFile W (actualPath (sourceInfo inputFlake) @ ''/''
                                 @ subdir (flake_lockedRef inputFlake) @ ''/flake.lock'') of
             Inl e \<Rightarrow> Inl e
           | Inr lf \<Rightarrow> Inr (root lf)))"

text \<open>
  The fresh path (lines 459-507); \<open>r\<close> is \<^verbatim>\<open>*input.ref\<close>. \<open>originalInput\<close> and
  \<open>inp\<close> are the two names of the source for the one input object.
\<close>

definition lockFresh ::
  "Rec \<Rightarrow> World \<Rightarrow> LockFlags \<Rightarrow> InputPath \<Rightarrow> FlakeId \<Rightarrow> FlakeInput \<Rightarrow> FlakeInput \<Rightarrow> FlakeInputs \<Rightarrow> Node
     \<Rightarrow> LockedNode option \<Rightarrow> FlakeRef \<Rightarrow> SolverState \<Rightarrow> StepResult" where
  "lockFresh rec W F inputPath i originalInput inp ovs node oldLock r s =
     (if \<not> allowMutable F \<and> \<not> isImmutable W (input r) then Some (Raised MutableInPureMode s)
      else if isFlake inp then
        (case getFlake W r (useRegistries F) s of
           Raised e s1 \<Rightarrow> Some (Raised e s1)
         | Ok inputFlake s1 \<Rightarrow>
             (let childNode = LockedNode (flake_lockedRef inputFlake)
                                (case ref originalInput of Some orig \<Rightarrow> orig | None \<Rightarrow> r) True [] in
              if r \<in> set (parents s1) then Some (Raised CircularImport s1)
              else
                (let s2 = s1\<lparr>parents := parents s1 @ [r]\<rparr> in
                 popParent
                   (case freshBaseline W oldLock inputFlake of
                      Inl e \<Rightarrow> Some (Raised e s2)
                    | Inr baseline \<Rightarrow>
                        attachChild i childNode inp ovs node
                          (rec (inputs inputFlake) inputPath (Some baseline) (overrides inp) s2)))))
      else
        (case fetchOrSubstituteTree W r (useRegistries F) s of
           Raised e s1 \<Rightarrow> Some (Raised e s1)
         | Ok (srcInfo, resolvedRef, lockRef) s1 \<Rightarrow>
             Some (Ok (insert_or_assign i (Inl (LockedNode lockRef r False [])) node, inp, ovs) s1)))"

text \<open>One iteration of the loop over the inputs (lines 357-507).\<close>

definition lockInput ::
  "Rec \<Rightarrow> World \<Rightarrow> LockFlags \<Rightarrow> InputPath \<Rightarrow> Node option \<Rightarrow> FlakeId \<Rightarrow> FlakeInput \<Rightarrow> FlakeInputs \<Rightarrow> Node
     \<Rightarrow> SolverState \<Rightarrow> StepResult" where
  "lockInput rec W F inputPathPrefix oldNode i originalInput ovs node s =
     (let inputPath = inputPathPrefix @ [i];
          applied = applyOverride W inputPath i originalInput ovs;
          inp = fst applied; hasOverride = fst (snd applied); ovs' = snd (snd applied)
      in case follows inp of
           Some f \<Rightarrow>
             Some (Ok (insert_or_assign i (Inr (followsTarget inputPathPrefix f hasOverride (absolute inp))) node,
                       inp, ovs') s)
         | None \<Rightarrow>
             (case ref inp of
                None \<Rightarrow> Some (Raised AssertionFailed s)
              | Some r \<Rightarrow>
                  (let s1 = s\<lparr>updatesUsed := insert inputPath (updatesUsed s)\<rparr>;
                       oldLock = getOldLock F oldNode inputPath i
                   in case oldLock of
                        None \<Rightarrow> lockFresh rec W F inputPath i inp inp ovs' node oldLock r s1
                      | Some l \<Rightarrow>
                          if originalRef l = r \<and> \<not> hasOverride
                            then lockReuse rec W F inputPath i inp ovs' node l s1
                          else lockFresh rec W F inputPath i inp inp ovs' node oldLock r s1)))"

text \<open>The loop over \<^verbatim>\<open>flakeInputs\<close> (line 356), in the order of the map.\<close>

fun lockInputs ::
  "Rec \<Rightarrow> World \<Rightarrow> LockFlags \<Rightarrow> InputPath \<Rightarrow> Node option \<Rightarrow> FlakeInputs \<Rightarrow> FlakeInputs \<Rightarrow> Node
     \<Rightarrow> SolverState \<Rightarrow> LocksResult" where
  "lockInputs rec W F inputPathPrefix oldNode [] ovs node s = Some (Ok (node, [], ovs) s)"
| "lockInputs rec W F inputPathPrefix oldNode (ii # rest) ovs node s =
     (case lockInput rec W F inputPathPrefix oldNode (fst ii) (snd ii) ovs node s of
        None \<Rightarrow> None
      | Some (Raised e s1) \<Rightarrow> Some (Raised e s1)
      | Some (Ok (node1, inp1, ovs1) s1) \<Rightarrow>
          (case lockInputs rec W F inputPathPrefix oldNode rest ovs1 node1 s1 of
             None \<Rightarrow> None
           | Some (Raised e s2) \<Rightarrow> Some (Raised e s2)
           | Some (Ok (node2, rest2, ovs2) s2) \<Rightarrow> Some (Ok (node2, (fst ii, inp1) # rest2, ovs2) s2)))"

text \<open>
  The body of \<^verbatim>\<open>computeLocks\<close> (lines 351-513). Every call site passes a node that
  was just created, so the loop starts from a node without inputs.
\<close>

definition computeLocksBody :: "Rec \<Rightarrow> World \<Rightarrow> LockFlags \<Rightarrow> Rec" where
  "computeLocksBody rec W F flakeInputs inputPathPrefix oldNode ovs s =
     (case lockInputs rec W F inputPathPrefix oldNode flakeInputs ovs [] s of
        None \<Rightarrow> None
      | Some (Raised e s1) \<Rightarrow> Some (Raised e s1)
      | Some (Ok (node, ins, ovs1) s1) \<Rightarrow>
          Some (Ok (node, ins, ovs1) (warnUnusedOverrides W ovs1 inputPathPrefix s1)))"

text \<open>
  \<^verbatim>\<open>computeLocks\<close>: the recursion follows the fetched flakes, which need not end,
  so it is bounded by a depth; a call that needs more depth is \<open>None\<close>.
\<close>

primrec computeLocks :: "nat \<Rightarrow> World \<Rightarrow> LockFlags \<Rightarrow> Rec" where
  "computeLocks 0 W F = (\<lambda>flakeInputs inputPathPrefix oldNode ovs s. None)"
| "computeLocks (Suc n) W F = computeLocksBody (computeLocks n W F) W F"

section \<open>\<^verbatim>\<open>lockFlake\<close>\<close>

text \<open>
  Modelled from the spec: \<^verbatim>\<open>LockFile::isImmutable\<close> and \<^verbatim>\<open>LockFile::check\<close> are
  defined in \<^verbatim>\<open>lockfile.cc\<close>, which is not among the sources. The specification
  says that a lock file is immutable iff the locked reference of every locked node
  is immutable, and that \<^verbatim>\<open>check\<close> requires every follows edge to resolve to an
  existing node of the graph and fails with \<open>DanglingFollows\<close> otherwise; the empty
  path denotes the root.
\<close>

fun lockedRefsOf :: "LockedNode \<Rightarrow> FlakeRef list" where
  "lockedRefsOf (LockedNode l orig f ins) =
     l # concat (map (\<lambda>ie. case snd ie of Inl n \<Rightarrow> lockedRefsOf n | Inr p \<Rightarrow> []) ins)"

definition lockedRefsNode :: "Node \<Rightarrow> FlakeRef list" where
  "lockedRefsNode n = concat (map (\<lambda>ie. case snd ie of Inl l \<Rightarrow> lockedRefsOf l | Inr p \<Rightarrow> []) n)"

definition lockFileImmutable :: "World \<Rightarrow> LockFile \<Rightarrow> bool" where
  "lockFileImmutable W lf = list_all (\<lambda>r. isImmutable W (input r)) (lockedRefsNode (root lf))"

fun followsOf :: "LockedNode \<Rightarrow> InputPath list" where
  "followsOf (LockedNode l orig f ins) =
     concat (map (\<lambda>ie. case snd ie of Inl n \<Rightarrow> followsOf n | Inr p \<Rightarrow> [p]) ins)"

definition followsNode :: "Node \<Rightarrow> InputPath list" where
  "followsNode n = concat (map (\<lambda>ie. case snd ie of Inl l \<Rightarrow> followsOf l | Inr p \<Rightarrow> [p]) n)"

fun findNode :: "Node \<Rightarrow> InputPath \<Rightarrow> bool" where
  "findNode n [] = True"
| "findNode n (i # rest) =
     (case map_of n i of Some (Inl l) \<Rightarrow> findNode (nodeInputs l) rest | _ \<Rightarrow> False)"

definition check :: "LockFile \<Rightarrow> error option" where
  "check lf = (if list_all (findNode (root lf)) (followsNode (root lf)) then None else Some DanglingFollows)"

record LockedFlake =
  flake :: Flake
  lockFile :: LockFile

text \<open>Lines 521-523: the warnings for update flags that matched no input.\<close>

definition warnUnusedUpdates :: "LockFlags \<Rightarrow> SolverState \<Rightarrow> SolverState" where
  "warnUnusedUpdates F s =
     foldl (\<lambda>s' i. if i \<in> updatesUsed s then s' else warn (UnusedUpdateFlag i) s') s (inputUpdates F)"

text \<open>
  Lines 541-586: the lock file is written, the file is marked as changed on the
  top-level input, and the top-level flake is fetched again with a cache of its
  own. \<open>sourcePath\<close> is the source path of the top-level input.
\<close>

definition writeAndRefetch ::
  "World \<Rightarrow> FlakeRef \<Rightarrow> LockFlags \<Rightarrow> Flake \<Rightarrow> LockFile \<Rightarrow> string \<Rightarrow> Path \<Rightarrow> SolverState
     \<Rightarrow> (LockedFlake, SolverState) outcome" where
  "writeAndRefetch W topRef F fl newLockFile diff sourcePath s =
     (let relPath = (if subdir topRef = [] then [] else subdir topRef @ ''/'') @ ''flake.lock'';
          path = sourcePath @ ''/'' @ relPath;
          lockFileExists = pathExists W path;
          s1 = warn (if lockFileExists then UpdatingLockFile path (chomp W diff) else CreatingLockFile path) s;
          s2 = s1\<lparr>written := written s1 @ [(path, newLockFile)]\<rparr>;
          s3 = s2\<lparr>changed := changed s2
                  @ [(relPath, if commitLockFile F then Some (relPath, lockFileExists, diff) else None)]\<rparr>;
          prevLockedRef = flake_lockedRef fl
      in case getFlake W topRef (useRegistries F) (s3\<lparr>flakeCache := []\<rparr>) of
           Raised e s4 \<Rightarrow> Raised e (s4\<lparr>flakeCache := flakeCache s3\<rparr>)
         | Ok fl' s4 \<Rightarrow>
             (let s5 = s4\<lparr>flakeCache := flakeCache s3\<rparr>;
                  rev' = getRev W (input (flake_lockedRef fl'));
                  s6 = (case rev' of
                          Some h \<Rightarrow>
                            if commitLockFile F \<and> getRev W (input prevLockedRef) \<noteq> rev'
                              then warn (CommittedRevision h) s5 else s5
                        | None \<Rightarrow> s5)
              in if input (flake_lockedRef fl') = input prevLockedRef
                    \<and> \<not> isImmutable W (input (flake_lockedRef fl'))
                   then Raised LockWriteDidNotTakeEffect s6
                 else Ok \<lparr> flake = fl', lockFile = newLockFile \<rparr> s6))"

text \<open>Lines 531-594: whether the new lock file needs to be, and can be, written.\<close>

definition persist ::
  "World \<Rightarrow> FlakeRef \<Rightarrow> LockFlags \<Rightarrow> Flake \<Rightarrow> LockFile \<Rightarrow> LockFile \<Rightarrow> SolverState
     \<Rightarrow> (LockedFlake, SolverState) outcome" where
  "persist W topRef F fl oldLockFile newLockFile s =
     (if \<not> (newLockFile = oldLockFile) then
        (let diff = diffLockFile W oldLockFile newLockFile in
         if writeLockFile F then
           (case getSourcePath W (input topRef) of
              Some sourcePath \<Rightarrow>
                if \<not> lockFileImmutable W newLockFile then
                  Ok \<lparr> flake = fl, lockFile = newLockFile \<rparr>
                    (if warnDirty W then warn (MutableInputNoWrite topRef) s else s)
                else if \<not> updateLockFile F then Raised LockChangesDisallowed s
                else writeAndRefetch W topRef F fl newLockFile diff sourcePath s
            | None \<Rightarrow> Raised CannotWriteLockFile s)
         else Ok \<lparr> flake = fl, lockFile = newLockFile \<rparr>
                (warn (NotWritingLockFile topRef (chomp W diff)) s))
      else Ok \<lparr> flake = fl, lockFile = newLockFile \<rparr> s)"

text \<open>
  Lines 325-528: the overrides of the flags are entered, the locks are computed from
  the root, the unused update flags are reported and the new lock file is checked.
  The result is the flake (whose inputs the solver has updated in place), the old
  and the new lock file.
\<close>

definition solveLocks ::
  "nat \<Rightarrow> World \<Rightarrow> LockFlags \<Rightarrow> Flake \<Rightarrow> LockFile \<Rightarrow> SolverState
     \<Rightarrow> (Flake \<times> LockFile \<times> LockFile, SolverState) outcome option" where
  "solveLocks fuel W F fl oldLockFile s1 =
     (case enterOverrides (inputOverrides F) [] of
        Inl e \<Rightarrow> Some (Raised e s1)
      | Inr ovs \<Rightarrow>
          (case computeLocks fuel W F (inputs fl) []
                  (if recreateLockFile F then None else Some (root oldLockFile)) ovs s1 of
             None \<Rightarrow> None
           | Some (Raised e s2) \<Rightarrow> Some (Raised e s2)
           | Some (Ok (rootInputs, flakeInputs', ovs') s2) \<Rightarrow>
               (let s3 = warnUnusedUpdates F s2;
                    newLockFile = \<lparr> root = rootInputs \<rparr> in
                case check newLockFile of
                  Some e \<Rightarrow> Some (Raised e s3)
                | None \<Rightarrow> Some (Ok (fl\<lparr>inputs := flakeInputs'\<rparr>, oldLockFile, newLockFile) s3))))"

text \<open>
  Lines 315-528: the top-level flake is fetched with a new cache, its lock file is
  read, and the locks are solved.
\<close>

definition solve ::
  "nat \<Rightarrow> World \<Rightarrow> FlakeRef \<Rightarrow> LockFlags \<Rightarrow> SolverState
     \<Rightarrow> (Flake \<times> LockFile \<times> LockFile, SolverState) outcome option" where
  "solve fuel W topRef F s0 =
     (let s = s0\<lparr>flakeCache := [], parents := [], updatesUsed := {}\<rparr> in
      case getFlake W topRef (useRegistries F) s of
        Raised e s1 \<Rightarrow> Some (Raised e s1)
      | Ok fl s1 \<Rightarrow>
          (case readLockFile W (actualPath (sourceInfo fl) @ ''/''
                                 @ subdir (flake_lockedRef fl) @ ''/flake.lock'') of
             Inl e \<Rightarrow> Some (Raised e s1)
           | Inr oldLockFile \<Rightarrow> solveLocks fuel W F fl oldLockFile s1))"

text \<open>
  \<^verbatim>\<open>lockFlake\<close> (lines 308-595). \<open>fuel\<close> bounds the depth of \<^verbatim>\<open>computeLocks\<close>;
  \<^verbatim>\<open>flakeCache\<close>, \<^verbatim>\<open>parents\<close> and \<^verbatim>\<open>updatesUsed\<close> are locals and start empty.
\<close>

definition lockFlake ::
  "nat \<Rightarrow> World \<Rightarrow> FlakeRef \<Rightarrow> LockFlags \<Rightarrow> SolverState \<Rightarrow> (LockedFlake, SolverState) outcome option" where
  "lockFlake fuel W topRef F s0 =
     (if \<not> flakesEnabled W then Some (Raised FeatureDisabled s0)
      else
        (case solve fuel W topRef F s0 of
           None \<Rightarrow> None
         | Some (Raised e s) \<Rightarrow> Some (Raised e s)
         | Some (Ok (fl, oldLockFile, newLockFile) s) \<Rightarrow>
             Some (persist W topRef F fl oldLockFile newLockFile s)))"

text \<open>
  \<^verbatim>\<open>prim_getFlake\<close> (lines 627-642); the result is the locked flake that is handed
  to \<^verbatim>\<open>callFlake\<close>. The flags that the call does not name have the defaults of
  \<^verbatim>\<open>LockFlags\<close>: the lock file is not recreated, it is written, not committed, and
  there are no overrides and no updates.
\<close>

definition prim_getFlake ::
  "nat \<Rightarrow> World \<Rightarrow> bool \<Rightarrow> string \<Rightarrow> SolverState \<Rightarrow> (LockedFlake, SolverState) outcome option" where
  "prim_getFlake fuel W pureEval flakeRefS s =
     (case parseFlakeRef W flakeRefS of
        Inl e \<Rightarrow> Some (Raised e s)
      | Inr flakeRef \<Rightarrow>
          if pureEval \<and> \<not> isImmutable W (input flakeRef) then Some (Raised MutableInPureMode s)
          else lockFlake fuel W flakeRef
                 \<lparr> recreateLockFile = False, updateLockFile = False, writeLockFile = True,
                   useRegistries = \<not> pureEval, allowMutable = \<not> pureEval, commitLockFile = False,
                   inputOverrides = [], inputUpdates = [] \<rparr> s)"

section \<open>The entries of an override map that carry a reference\<close>

text \<open>
  What the warning about unused overrides is to name: the entries of the map,
  direct or nested, that carry a reference. \<open>refEntries\<close>
  lists them with their input paths, \<open>entryIn ovs q e\<close> says that \<open>e\<close> is the entry
  at the relative path \<open>q\<close>, and \<open>joinComma\<close> separates the printed entries.
\<close>

function refEntries :: "FlakeInputs \<Rightarrow> InputPath \<Rightarrow> (InputPath \<times> FlakeRef) list" where
  "refEntries [] p = []"
| "refEntries ((i, ov) # rest) p =
     (case ref ov of Some r \<Rightarrow> [(p @ [i], r)] | None \<Rightarrow> [])
     @ refEntries (overrides ov) (p @ [i]) @ refEntries rest p"
  by pat_completeness auto

termination refEntries
  by (relation "measure (\<lambda>(ovs, p). size_list (size_prod (\<lambda>_. 0) size) ovs)")
    (auto simp: less_Suc_eq_le size_overrides_bound)

fun joinComma :: "string list \<Rightarrow> string" where
  "joinComma [] = []"
| "joinComma [x] = x"
| "joinComma (x # y # ys) = x @ '', '' @ joinComma (y # ys)"

fun printEntry :: "(FlakeRef \<Rightarrow> string) \<Rightarrow> InputPath \<times> FlakeRef \<Rightarrow> string" where
  "printEntry sh (q, r) = printInputPath q @ ''='' @ sh r"

inductive entryIn :: "FlakeInputs \<Rightarrow> InputPath \<Rightarrow> FlakeInput \<Rightarrow> bool" where
  here: "(i, e) \<in> set ovs \<Longrightarrow> entryIn ovs [i] e"
| below: "(i, e') \<in> set ovs \<Longrightarrow> entryIn (overrides e') q e \<Longrightarrow> entryIn ovs (i # q) e"

declare printOverrides.simps [simp del]

section \<open>What a call leaves unchanged\<close>

text \<open>
  \<open>stateOf\<close> is the state that an outcome leaves, whether it raised or returned.
  \<open>frame s s'\<close> says that \<open>s'\<close> has the parents stack, the written lock files
  and the files marked as changed of \<open>s\<close>, and that every lookup that hits in the
  cache of \<open>s\<close> gives the same entry in the cache of \<open>s'\<close>; \<open>framesRec\<close>
  says so of every result of a recursive call.
\<close>

fun stateOf :: "('a, 's) outcome \<Rightarrow> 's" where
  "stateOf (Raised e s) = s"
| "stateOf (Ok x s) = s"

definition frame :: "SolverState \<Rightarrow> SolverState \<Rightarrow> bool" where
  "frame s s' \<longleftrightarrow>
     parents s' = parents s \<and> written s' = written s \<and> changed s' = changed s
     \<and> (\<forall>r f. lookupInFlakeCache (flakeCache s) r = Some f
                \<longrightarrow> lookupInFlakeCache (flakeCache s') r = Some f)"

definition framesRec :: "Rec \<Rightarrow> bool" where
  "framesRec rec \<longleftrightarrow> (\<forall>ins p old ovs s r. rec ins p old ovs s = Some r \<longrightarrow> frame s (stateOf r))"

text \<open>
  \<open>extendsRec rec rec'\<close> says that \<open>rec'\<close> gives every result that \<open>rec\<close> gives.
\<close>

definition extendsRec :: "Rec \<Rightarrow> Rec \<Rightarrow> bool" where
  "extendsRec rec rec' \<longleftrightarrow>
     (\<forall>ins p old ovs s r. rec ins p old ovs s = Some r \<longrightarrow> rec' ins p old ovs s = Some r)"

text \<open>
  The invariant of the parents stack. \<open>manifestOk W r f\<close> says that the part of
  \<^verbatim>\<open>getFlake\<close> after the fetch succeeds for the cache entry \<open>f\<close> of the reference
  \<open>r\<close>; \<open>loads W F s r\<close> says that \<open>r\<close> passes the purity check of line 463, is
  in the cache of \<open>s\<close>, passes the assertion of line 124 and has a manifest that
  parses; \<open>stackLoaded\<close> says so of every reference on the parents stack.
\<close>

definition manifestOk :: "World \<Rightarrow> FlakeRef \<Rightarrow> FetchedFlake \<Rightarrow> bool" where
  "manifestOk W origRef f =
     (let flakeFile = canonPath W (actualPath (fst f) @ ''/'' @ subdir (snd f) @ ''/flake.nix'') in
      isInDir W flakeFile (actualPath (fst f)) \<and> pathExists W flakeFile
      \<and> (case evalFile W flakeFile of
            Inr (VAttrs vInfo) \<Rightarrow>
              (case parseManifest W vInfo
                      \<lparr> flake_originalRef = origRef, flake_resolvedRef = origRef,
                        flake_lockedRef = snd f, sourceInfo = fst f, description = None,
                        inputs = [], vOutputs = None \<rparr> of
                 Inr fl \<Rightarrow> True
               | Inl e \<Rightarrow> False)
          | _ \<Rightarrow> False))"

definition loads :: "World \<Rightarrow> LockFlags \<Rightarrow> SolverState \<Rightarrow> FlakeRef \<Rightarrow> bool" where
  "loads W F s r \<longleftrightarrow>
     (allowMutable F \<or> isImmutable W (input r))
     \<and> (case lookupInFlakeCache (flakeCache s) r of
           None \<Rightarrow> False
         | Some f \<Rightarrow>
             (narHash (input r) = None \<or> storePath (fst f) = computeStorePath W (input r))
             \<and> manifestOk W r f)"

definition stackLoaded :: "World \<Rightarrow> LockFlags \<Rightarrow> SolverState \<Rightarrow> bool" where
  "stackLoaded W F s \<longleftrightarrow> list_all (loads W F s) (parents s)"

text \<open>
  \<open>checked W F rec\<close> is the recursive call \<open>rec\<close> that runs only in a state with
  a loaded stack, and \<open>computeLocksChecked\<close> is \<^verbatim>\<open>computeLocks\<close> with every
  recursive call so restricted.
\<close>

definition checked :: "World \<Rightarrow> LockFlags \<Rightarrow> Rec \<Rightarrow> Rec" where
  "checked W F rec = (\<lambda>ins p old ovs s. if stackLoaded W F s then rec ins p old ovs s else None)"

primrec computeLocksChecked :: "nat \<Rightarrow> World \<Rightarrow> LockFlags \<Rightarrow> Rec" where
  "computeLocksChecked 0 W F = (\<lambda>flakeInputs inputPathPrefix oldNode ovs s. None)"
| "computeLocksChecked (Suc n) W F = computeLocksBody (checked W F (computeLocksChecked n W F)) W F"

section \<open>Concrete worlds\<close>

text \<open>
  A small world for the concrete runs: flakes are directories, a reference of type
  \<open>path\<close> is direct and mutable, fetching it gives the tree at that path and the
  reference pinned to revision \<open>1\<close>, and the registry maps the indirect reference
  with id \<open>n\<close> to the path \<open>/n\<close>. The manifests (\<open>ev\<close>), the lock files found
  next to them (\<open>rl\<close>) and the values of uninitialised reads (\<open>un\<close>) vary.
\<close>

definition pathRef :: "Path \<Rightarrow> FlakeRef" where
  "pathRef p = \<lparr> input = \<lparr> attrs = [(''path'', p), (''type'', ''path'')], narHash = None \<rparr>, subdir = [] \<rparr>"

definition lockedPathRef :: "Path \<Rightarrow> FlakeRef" where
  "lockedPathRef p =
     \<lparr> input = \<lparr> attrs = [(''path'', p), (''rev'', ''1''), (''type'', ''path'')], narHash = None \<rparr>,
       subdir = [] \<rparr>"

definition indirectRef :: "FlakeId \<Rightarrow> FlakeRef" where
  "indirectRef n = \<lparr> input = \<lparr> attrs = indirectAttrs n, narHash = None \<rparr>, subdir = [] \<rparr>"

definition testTree :: "Path \<Rightarrow> Tree" where
  "testTree p = \<lparr> actualPath = p, storePath = p,
                  info = \<lparr> info_narHash = Some ''h'', revCount = None, lastModified = None \<rparr> \<rparr>"

definition testWorld ::
  "(Path \<Rightarrow> error + Value) \<Rightarrow> (Path \<Rightarrow> error + LockFile) \<Rightarrow> (InputPath \<Rightarrow> bool) \<Rightarrow> World" where
  "testWorld ev rl un =
     \<lparr> flakesEnabled = True, warnDirty = True,
       isDirect = (\<lambda>i. map_of (attrs i) ''type'' \<noteq> Some ''indirect''),
       isImmutable = (\<lambda>i. map_of (attrs i) ''rev'' \<noteq> None),
       resolve = (\<lambda>r. case map_of (attrs (input r)) ''id'' of
                          Some n \<Rightarrow> Inr (pathRef (''/'' @ n))
                        | None \<Rightarrow> Inl UnknownRegistryEntry),
       fetchTree = (\<lambda>w r. case map_of (attrs (input r)) ''path'' of
                            Some p \<Rightarrow> Inr (testTree p, lockedPathRef p)
                          | None \<Rightarrow> Inl FetchFailure),
       computeStorePath = (\<lambda>i. []),
       getSourcePath = (\<lambda>i. map_of (attrs i) ''path''),
       getRev = (\<lambda>i. map_of (attrs i) ''rev''),
       showFlakeRef = (\<lambda>r. case map_of (attrs (input r)) ''path'' of
                               Some p \<Rightarrow> ''path:'' @ p
                             | None \<Rightarrow> ''flake:''),
       parseFlakeRef = (\<lambda>s. Inr (pathRef s)),
       fromAttrs = (\<lambda>as. Inr \<lparr> input = \<lparr> attrs = as, narHash = None \<rparr>, subdir = [] \<rparr>),
       parseInputPath = (\<lambda>s. Inr [s]),
       canonPath = (\<lambda>p. p),
       isInDir = (\<lambda>p d. True),
       pathExists = (\<lambda>p. True),
       evalFile = ev,
       readLockFile = rl,
       diffLockFile = (\<lambda>a b. ''diff''),
       chomp = (\<lambda>s. s),
       hasOverride_uninit = un \<rparr>"

definition noLock :: "Path \<Rightarrow> error + LockFile" where
  "noLock p = Inr \<lparr> root = [] \<rparr>"

definition emptyState :: SolverState where
  "emptyState = \<lparr> flakeCache = [], parents = [], updatesUsed = {}, allowedPaths = None, warnings = [],
                   fetched = [], written = [], changed = [] \<rparr>"

definition defaultFlags :: LockFlags where
  "defaultFlags = \<lparr> recreateLockFile = False, updateLockFile = True, writeLockFile = False,
                     useRegistries = True, allowMutable = True, commitLockFile = False,
                     inputOverrides = [], inputUpdates = [] \<rparr>"

text \<open>A manifest without inputs.\<close>

definition leafManifest :: Value where
  "leafManifest = VAttrs [(''outputs'', VLambda True [''self''])]"

definition evalLeaf :: "Path \<Rightarrow> error + Value" where
  "evalLeaf p = Inr leafManifest"

text \<open>An override map in which no entry carries a reference, and one with a nested reference.\<close>

definition ovsNoRef :: FlakeInputs where
  "ovsNoRef = [(''nonexistent'', FlakeInput None True (Some [''x'']) False
                                  [(''y'', FlakeInput None False None False [])])]"

definition ovsNested :: FlakeInputs where
  "ovsNested = [(''nonexistent'', FlakeInput None True None False
                                   [(''y'', FlakeInput (Some (pathRef ''/b'')) True None False [])])]"

text \<open>
  Overrides for the input \<open>dep\<close> and for the nested input \<open>y\<close> of an input
  \<open>nonexistent\<close>, as the flags give them and as \<^verbatim>\<open>lockFlake\<close> enters them.
\<close>

definition ovsDepNested :: FlakeInputs where
  "ovsDepNested = (''dep'', FlakeInput (Some (pathRef ''/c'')) True None False []) # ovsNested"

definition flagsOverride :: LockFlags where
  "flagsOverride = defaultFlags\<lparr>inputOverrides := [([''dep''], pathRef ''/c''),
                                                    ([''nonexistent'', ''y''], pathRef ''/b'')]\<rparr>"

text \<open>
  A top-level flake with one input \<open>dep\<close>, declared with the URL \<open>/a\<close>; the lock
  file that pins it; flags that write the lock file.
\<close>

definition eval1 :: "Path \<Rightarrow> error + Value" where
  "eval1 p = (if p = ''/top//flake.nix''
              then Inr (VAttrs [(''inputs'', VAttrs [(''dep'', VAttrs [(''url'', VString ''/a'')])]),
                                (''outputs'', VLambda True [''self'', ''dep''])])
              else Inr leafManifest)"

definition lockWithDep :: "Path \<Rightarrow> error + LockFile" where
  "lockWithDep p = (if p = ''/top//flake.lock''
                    then Inr \<lparr> root = [(''dep'', Inl (LockedNode (lockedPathRef ''/a'') (pathRef ''/a'') True []))] \<rparr>
                    else Inr \<lparr> root = [] \<rparr>)"

definition lockedDep :: LockFile where
  "lockedDep = \<lparr> root = [(''dep'', Inl (LockedNode (lockedPathRef ''/a'') (pathRef ''/a'') True []))] \<rparr>"

definition flagsWrite :: LockFlags where
  "flagsWrite = defaultFlags\<lparr>writeLockFile := True\<rparr>"

text \<open>
  A top-level flake whose input \<open>a\<close> declares \<open>b\<close> with \<open>follows = "c"\<close> next
  to an input \<open>c\<close>.
\<close>

definition evalFollows :: "Path \<Rightarrow> error + Value" where
  "evalFollows p = (if p = ''/top//flake.nix''
              then Inr (VAttrs [(''inputs'', VAttrs [(''a'', VAttrs [(''url'', VString ''/a'')])]),
                                (''outputs'', VLambda True [''self'', ''a''])])
              else if p = ''/a//flake.nix''
              then Inr (VAttrs [(''inputs'', VAttrs [(''b'', VAttrs [(''follows'', VString ''c'')]),
                                                     (''c'', VAttrs [(''url'', VString ''/c'')])]),
                                (''outputs'', VLambda True [''self'', ''b'', ''c''])])
              else Inr leafManifest)"



text \<open>A manifest with a declared input and a formal that is not declared.\<close>

definition eval7 :: "Path \<Rightarrow> error + Value" where
  "eval7 p = (if p = ''/top//flake.nix''
              then Inr (VAttrs [(''inputs'', VAttrs [(''dep'', VAttrs [(''url'', VString ''/a'')])]),
                                (''outputs'', VLambda True [''self'', ''dep'', ''utils''])])
              else Inr leafManifest)"

text \<open>
  The flags that the primitive \<^verbatim>\<open>getFlake\<close> passes under pure evaluation. Flakes
  for them: \<open>/top1\<close> declares the input \<open>a\<close> by attributes with a revision,
  which makes the reference immutable, and the input \<open>b\<close> by a URL, which is
  mutable; \<open>/top2\<close> declares \<open>a\<close> with a revision, and the flake at \<open>/a\<close>
  declares the input \<open>m\<close> by a URL.
\<close>

definition pureFlags :: LockFlags where
  "pureFlags = \<lparr> recreateLockFile = False, updateLockFile = False, writeLockFile = True,
                  useRegistries = False, allowMutable = False, commitLockFile = False,
                  inputOverrides = [], inputUpdates = [] \<rparr>"

definition evalPure :: "Path \<Rightarrow> error + Value" where
  "evalPure p =
     (if p = ''/top1//flake.nix''
      then Inr (VAttrs [(''inputs'',
                         VAttrs [(''a'', VAttrs [(''path'', VString ''/l''), (''rev'', VString ''1''),
                                                 (''type'', VString ''path'')]),
                                 (''b'', VAttrs [(''url'', VString ''/b'')])]),
                        (''outputs'', VLambda True [''self'', ''a'', ''b''])])
      else if p = ''/top2//flake.nix''
      then Inr (VAttrs [(''inputs'',
                         VAttrs [(''a'', VAttrs [(''path'', VString ''/a''), (''rev'', VString ''1''),
                                                 (''type'', VString ''path'')])]),
                        (''outputs'', VLambda True [''self'', ''a''])])
      else if p = ''/a//flake.nix''
      then Inr (VAttrs [(''inputs'', VAttrs [(''m'', VAttrs [(''url'', VString ''/m'')])]),
                        (''outputs'', VLambda True [''self'', ''m''])])
      else Inr leafManifest)"

text \<open>
  A lock file of \<open>/top2\<close> that pins \<open>a\<close> and its input \<open>m\<close>, and flags that
  override \<open>m\<close> below \<open>a\<close> with a mutable reference.
\<close>

definition lockedA :: LockedNode where
  "lockedA = LockedNode (lockedPathRef ''/a'') (lockedPathRef ''/a'') True
               [(''m'', Inl (LockedNode (lockedPathRef ''/m'') (pathRef ''/m'') True []))]"

definition lockPure :: "Path \<Rightarrow> error + LockFile" where
  "lockPure p = (if p = ''/top2//flake.lock'' then Inr \<lparr> root = [(''a'', Inl lockedA)] \<rparr>
                 else Inr \<lparr> root = [] \<rparr>)"

definition pureFlagsOverride :: LockFlags where
  "pureFlagsOverride = pureFlags\<lparr>inputOverrides := [([''a'', ''m''], pathRef ''/x'')]\<rparr>"

text \<open>
  A store in which nothing can be substituted, and a backend that returns a tree
  without hash for a locked input carrying the hash that the store has recorded.
\<close>

definition store0 :: Store where
  "store0 = \<lparr> makeFixedOutputPath = (\<lambda>h. ''/nix/store/'' @ h @ ''-source''),
              ensurePath = (\<lambda>p. Some StoreError),
              toRealPath = (\<lambda>p. p),
              queryPathInfo = (\<lambda>p. Inr ''sha256-abc''),
              fetchTreeInternal = (\<lambda>i. Inr (\<lparr> actualPath = [], storePath = ''/nix/store/x-source'',
                                                 info = \<lparr> info_narHash = None, revCount = None, lastModified = None \<rparr> \<rparr>,
                                               i\<lparr>narHash := Some ''sha256-abc''\<rparr>)) \<rparr>"

definition input0 :: Input where
  "input0 = \<lparr> attrs = [(''path'', ''/src''), (''type'', ''path'')], narHash = Some ''sha256-abc'' \<rparr>"

definition tree0_fetched :: Tree where
  "tree0_fetched = \<lparr> actualPath = ''/nix/store/x-source'', storePath = ''/nix/store/x-source'',
                     info = \<lparr> info_narHash = Some ''sha256-abc'', revCount = None, lastModified = None \<rparr> \<rparr>"

section \<open>The depth bound\<close>

text \<open>
  A result that \<^verbatim>\<open>computeLocks\<close> reaches within some depth is its result for every
  larger bound, and so for \<^verbatim>\<open>lockFlake\<close>: the bound decides only whether the
  model has a result, never which.
\<close>

lemma attachChild_mono:
  "extendsRec rec rec' \<Longrightarrow> attachChild i c inp ovs node (rec a b d e s) = Some r \<Longrightarrow>
     attachChild i c inp ovs node (rec' a b d e s) = Some r"
  by (cases "rec a b d e s") (auto simp: extendsRec_def attachChild_def)

lemma popParent_mono:
  "(\<And>y. x = Some y \<Longrightarrow> x' = Some y) \<Longrightarrow> popParent x = Some r \<Longrightarrow> popParent x' = Some r"
  by (cases x) (auto simp: popParent_def)

lemma lockReuse_mono:
  assumes "extendsRec rec rec'" and "lockReuse rec W F inputPath i inp ovs node oldLock s = Some r"
  shows "lockReuse rec' W F inputPath i inp ovs node oldLock s = Some r"
  using assms(2) unfolding lockReuse_def Let_def
  by (auto split: if_splits outcome.splits dest: attachChild_mono[OF assms(1)])

lemma lockFresh_mono:
  assumes "extendsRec rec rec'" and "lockFresh rec W F inputPath i orig inp ovs node oldLock r s = Some res"
  shows "lockFresh rec' W F inputPath i orig inp ovs node oldLock r s = Some res"
proof -
  have inner: "popParent (case b of Inl e \<Rightarrow> Some (Raised e s2)
                 | Inr baseline \<Rightarrow> attachChild i c inp ovs node (rec' x p (Some baseline) y s2)) = Some res"
    if "popParent (case b of Inl e \<Rightarrow> Some (Raised e s2)
                 | Inr baseline \<Rightarrow> attachChild i c inp ovs node (rec x p (Some baseline) y s2)) = Some res"
    for b :: "error + Node" and s2 c x p y
  proof (cases b)
    case (Inl e)
    then show ?thesis using that by simp
  next
    case (Inr baseline)
    have "popParent (attachChild i c inp ovs node (rec' x p (Some baseline) y s2)) = Some res"
      by (rule popParent_mono[OF attachChild_mono[OF assms(1)]]) (use that Inr in auto)
    then show ?thesis using Inr by simp
  qed
  show ?thesis
    using assms(2) unfolding lockFresh_def Let_def
    by (auto split: if_splits outcome.splits intro: inner)
qed

lemma lockInput_mono:
  assumes "extendsRec rec rec'" and "lockInput rec W F prefix oldNode i orig ovs node s = Some res"
  shows "lockInput rec' W F prefix oldNode i orig ovs node s = Some res"
  using assms(2) unfolding lockInput_def Let_def
  by (auto split: option.splits if_splits
      dest: lockReuse_mono[OF assms(1)] lockFresh_mono[OF assms(1)])

lemma lockInputs_mono:
  assumes "extendsRec rec rec'"
  shows "lockInputs rec W F prefix oldNode ins ovs node s = Some res \<Longrightarrow>
         lockInputs rec' W F prefix oldNode ins ovs node s = Some res"
proof (induction ins arbitrary: ovs node s res)
  case Nil
  then show ?case by simp
next
  case (Cons ii rest)
  from Cons.prems obtain r1 where r1: "lockInput rec W F prefix oldNode (fst ii) (snd ii) ovs node s = Some r1"
    by (auto split: option.splits)
  have r1': "lockInput rec' W F prefix oldNode (fst ii) (snd ii) ovs node s = Some r1"
    by (rule lockInput_mono[OF assms r1])
  show ?case
  proof (cases r1)
    case (Raised e s1)
    then show ?thesis using Cons.prems r1 r1' by simp
  next
    case (Ok x s1)
    obtain node1 inp1 ovs1 where x: "x = (node1, inp1, ovs1)" by (cases x)
    from Cons.prems r1 Ok x obtain r2 where
      r2: "lockInputs rec W F prefix oldNode rest ovs1 node1 s1 = Some r2"
      by (auto split: option.splits)
    from Cons.IH[OF r2] show ?thesis
      using Cons.prems r1 r1' Ok x r2 by simp
  qed
qed

lemma computeLocksBody_mono:
  assumes "extendsRec rec rec'"
  shows "extendsRec (computeLocksBody rec W F) (computeLocksBody rec' W F)"
  unfolding extendsRec_def
proof (intro allI impI)
  fix ins p old ovs s r
  assume run: "computeLocksBody rec W F ins p old ovs s = Some r"
  then obtain r1 where r1: "lockInputs rec W F p old ins ovs [] s = Some r1"
    by (auto simp: computeLocksBody_def split: option.splits)
  have "lockInputs rec' W F p old ins ovs [] s = Some r1"
    by (rule lockInputs_mono[OF assms r1])
  then show "computeLocksBody rec' W F ins p old ovs s = Some r"
    using run r1 by (simp add: computeLocksBody_def)
qed

lemma computeLocks_more_fuel: "extendsRec (computeLocks n W F) (computeLocks (Suc n) W F)"
proof (induction n)
  case 0
  show ?case by (simp add: extendsRec_def)
next
  case (Suc n)
  show ?case
    using computeLocksBody_mono[OF Suc] by simp
qed

lemma computeLocks_fuel:
  "computeLocks n W F ins p old ovs s = Some r \<Longrightarrow> n \<le> m \<Longrightarrow> computeLocks m W F ins p old ovs s = Some r"
proof (induction m)
  case 0
  then show ?case by simp
next
  case (Suc m)
  show ?case
  proof (cases "n = Suc m")
    case True
    then show ?thesis using Suc.prems by simp
  next
    case False
    then have "computeLocks m W F ins p old ovs s = Some r"
      using Suc by simp
    then show ?thesis
      using computeLocks_more_fuel[of m W F] unfolding extendsRec_def by blast
  qed
qed


lemma solveLocks_fuel:
  assumes "solveLocks n W F fl oldLockFile s = Some r" and "n \<le> m"
  shows "solveLocks m W F fl oldLockFile s = Some r"
proof (cases "enterOverrides (inputOverrides F) []")
  case (Inl e)
  then show ?thesis
    using assms(1) by (simp add: solveLocks_def)
next
  case (Inr ovs)
  define old where "old = (if recreateLockFile F then None else Some (root oldLockFile))"
  obtain x where x: "computeLocks n W F (inputs fl) [] old ovs s = Some x"
    using assms(1) Inr unfolding solveLocks_def Let_def old_def
    by (auto split: option.splits)
  have "computeLocks m W F (inputs fl) [] old ovs s = Some x"
    by (rule computeLocks_fuel[OF x assms(2)])
  then show ?thesis
    using assms(1) x Inr unfolding solveLocks_def Let_def old_def by simp
qed

lemma lockFlake_fuel:
  assumes "lockFlake n W topRef F s = Some r" and "n \<le> m"
  shows "lockFlake m W topRef F s = Some r"
proof -
  have solve_fuel: "solve m W topRef F s = Some x" if "solve n W topRef F s = Some x" for x
    using that unfolding solve_def Let_def
    by (auto split: outcome.splits sum.splits intro: solveLocks_fuel[OF _ assms(2)])
  show ?thesis
    using assms(1) unfolding lockFlake_def
    by (auto split: if_splits option.splits dest: solve_fuel)
qed

section \<open>The NAR hash of a fetched tree\<close>

lemma substituteTree_narHash:
  "substituteTree st inp ap = Ok tree ap' \<Longrightarrow> info_narHash (info tree) = narHash inp \<and> narHash inp \<noteq> None"
  by (auto simp: substituteTree_def Let_def split: option.splits)

lemma fetchTreeFresh_narHash:
  assumes "fetchTreeFresh st inp ap = Ok (tree, locked) ap'"
  shows "info_narHash (info tree) \<noteq> None"
    and "narHash inp \<noteq> None \<Longrightarrow> info_narHash (info tree) = narHash inp"
    and "\<exists>tree0 input. fetchTreeInternal st inp = Inr (tree0, input) \<and> locked = Some input \<and>
           storePath tree = storePath tree0 \<and>
           (info_narHash (info tree0) = None \<longrightarrow>
              queryPathInfo st (storePath tree0) = Inr (the (info_narHash (info tree))))"
  using assms
  by (auto simp: fetchTreeFresh_def Let_def split: sum.splits option.splits if_splits prod.splits)

text \<open>
  C9. Every tree that \<^verbatim>\<open>Input::fetchTree\<close> returns has its NAR hash set. A tree
  that was fetched (second component set) comes from the backend, and when the
  backend left the hash unset the hash of the returned tree is the one the store's
  path info gives for the fetched store path. When the input declared an expected
  hash, a normal return means that the hash of the tree is the expected one.
\<close>

theorem fetchTree_narHash_populated:
  assumes "Input_fetchTree st inp ap = Ok (tree, locked) ap'"
  shows "info_narHash (info tree) \<noteq> None
       \<and> (\<forall>input. locked = Some input \<longrightarrow>
            (\<exists>tree0. fetchTreeInternal st inp = Inr (tree0, input) \<and>
               storePath tree = storePath tree0 \<and>
               (info_narHash (info tree0) = None \<longrightarrow>
                  queryPathInfo st (storePath tree0) = Inr (the (info_narHash (info tree))))))
       \<and> (\<forall>h. narHash inp = Some h \<longrightarrow> info_narHash (info tree) = Some h)"
proof (cases "narHash inp = None")
  case True
  then have fresh: "fetchTreeFresh st inp ap = Ok (tree, locked) ap'"
    using assms by (simp add: Input_fetchTree_def)
  show ?thesis
    using fetchTreeFresh_narHash(1)[OF fresh] fetchTreeFresh_narHash(3)[OF fresh] True
    by auto
next
  case False
  show ?thesis
  proof (cases "substituteTree st inp ap")
    case (Ok t ap1)
    then have "tree = t" "locked = None"
      using assms False by (auto simp: Input_fetchTree_def)
    then show ?thesis
      using substituteTree_narHash[OF Ok] by auto
  next
    case (Raised e ap1)
    then have fresh: "fetchTreeFresh st inp ap1 = Ok (tree, locked) ap'"
      using assms False by (auto simp: Input_fetchTree_def split: if_splits)
    show ?thesis
      using fetchTreeFresh_narHash(1)[OF fresh] fetchTreeFresh_narHash(2)[OF fresh]
        fetchTreeFresh_narHash(3)[OF fresh] False
      by auto
  qed
qed

theorem fetchTree_narHash_populated_witness:
  "Input_fetchTree store0 input0 (Some {}) = Ok (tree0_fetched, Some input0) (Some {''/nix/store/x-source''})
   \<and> info_narHash (info tree0_fetched) = Some ''sha256-abc''"
proof -
  have run: "Input_fetchTree store0 input0 (Some {})
             = Ok (tree0_fetched, Some input0) (Some {''/nix/store/x-source''})"
    by (simp add: Input_fetchTree_def substituteTree_def fetchTreeFresh_def store0_def input0_def
        tree0_fetched_def allow_def Let_def)
  have "narHash input0 = Some ''sha256-abc''"
    by (simp add: input0_def)
  with fetchTree_narHash_populated[OF run] run show ?thesis
    by blast
qed

section \<open>The warning about unused overrides\<close>

lemma joinComma_append:
  "xs \<noteq> [] \<Longrightarrow> ys \<noteq> [] \<Longrightarrow> joinComma (xs @ ys) = joinComma xs @ '', '' @ joinComma ys"
  by (induction xs rule: joinComma.induct) (auto simp: neq_Nil_conv)

lemma joinComma_snoc:
  "xs \<noteq> [] \<Longrightarrow> joinComma (xs @ [y]) = joinComma xs @ '', '' @ y"
  using joinComma_append[of xs "[y]"] by simp

lemma joinComma_entries_empty:
  "joinComma (map (printEntry sh) es) = [] \<longleftrightarrow> es = []"
  by (cases "map (printEntry sh) es" rule: joinComma.cases) auto

lemma printOverrides_refines:
  "printOverrides sh ovs p = joinComma (map (printEntry sh) (refEntries ovs p))"
  "\<forall>es. ret = joinComma (map (printEntry sh) es) \<and> first = (es = []) \<longrightarrow>
     printOverridesLoop sh ovs p ret first
       = (joinComma (map (printEntry sh) (es @ refEntries ovs p)), es @ refEntries ovs p = [])"
proof (induction sh ovs p and sh ovs p ret first rule: printOverrides_printOverridesLoop.induct)
  case (1 sh ovs p)
  show ?case using 1[rule_format, of "[]"] by (simp add: printOverrides.simps)
next
  case (2 sh p ret first)
  then show ?case by simp
next
  case (3 sh i override rest p ret first)
  show ?case
  proof (intro allI impI, elim conjE)
    fix es
    assume ret: "ret = joinComma (map (printEntry sh) es)" and first: "first = (es = [])"
    define here where "here = (case ref override of Some r \<Rightarrow> [(p @ [i], r)] | None \<Rightarrow> [])"
    define kids where "kids = refEntries (overrides override) (p @ [i])"
    define ret1 where "ret1 = (case ref override of
               Some r \<Rightarrow> (if first then ret else ret @ '', '') @ printInputPath (p @ [i]) @ ''='' @ sh r
             | None \<Rightarrow> ret)"
    define first1 where "first1 = (first \<and> ref override = None)"
    define childrenOverrides where "childrenOverrides = printOverrides sh (overrides override) (p @ [i])"
    define ret2 where "ret2 = (if childrenOverrides \<noteq> []
             then (if first1 then ret1 else ret1 @ '', '') @ childrenOverrides else ret1)"
    define first2 where "first2 = (first1 \<and> childrenOverrides = [])"
    have step: "printOverridesLoop sh ((i, override) # rest) p ret first
                = printOverridesLoop sh rest p ret2 first2"
      by (simp add: Let_def ret1_def first1_def childrenOverrides_def ret2_def first2_def)
    have c: "childrenOverrides = joinComma (map (printEntry sh) kids)"
      unfolding childrenOverrides_def kids_def using 3(1) by simp
    have r1: "ret1 = joinComma (map (printEntry sh) (es @ here))"
      unfolding ret1_def here_def using ret first
      by (auto simp: joinComma_snoc split: option.splits)
    have f1: "first1 = (es @ here = [])"
      unfolding first1_def here_def using first by (auto split: option.splits)
    have r2: "ret2 = joinComma (map (printEntry sh) ((es @ here) @ kids))"
    proof (cases "kids = []")
      case True
      then show ?thesis unfolding ret2_def c r1 by simp
    next
      case False
      then have ne: "childrenOverrides \<noteq> []"
        unfolding c by (simp add: joinComma_entries_empty)
      show ?thesis
      proof (cases "es @ here = []")
        case True
        then show ?thesis using ne unfolding ret2_def f1 r1 c by simp
      next
        case nonempty: False
        have "joinComma (map (printEntry sh) (es @ here) @ map (printEntry sh) kids)
              = joinComma (map (printEntry sh) (es @ here)) @ '', '' @ joinComma (map (printEntry sh) kids)"
          by (rule joinComma_append) (use nonempty False in auto)
        then show ?thesis using ne nonempty unfolding ret2_def f1 r1 c by simp
      qed
    qed
    have f2: "first2 = ((es @ here) @ kids = [])"
      unfolding first2_def f1 c by (simp add: joinComma_entries_empty)
    have ih: "printOverridesLoop sh rest p ret2 first2
          = (joinComma (map (printEntry sh) (((es @ here) @ kids) @ refEntries rest p)),
                   ((es @ here) @ kids) @ refEntries rest p = [])"
      using 3(2)[OF refl refl refl refl refl refl, rule_format, of "(es @ here) @ kids"] r2 f2
      unfolding ret1_def first1_def childrenOverrides_def ret2_def first2_def
      by blast
    have unfold: "refEntries ((i, override) # rest) p = here @ kids @ refEntries rest p"
      by (simp add: here_def kids_def)
    show "printOverridesLoop sh ((i, override) # rest) p ret first
         = (joinComma (map (printEntry sh) (es @ refEntries ((i, override) # rest) p)),
            es @ refEntries ((i, override) # rest) p = [])"
      unfolding step ih unfold by simp
  qed
qed

lemma entryIn_Cons: "entryIn rest q e \<Longrightarrow> entryIn (x # rest) q e"
  by (erule entryIn.cases) (auto intro: entryIn.intros)

lemma refEntries_here:
  "(i, e) \<in> set ovs \<Longrightarrow> ref e = Some r \<Longrightarrow> (p @ [i], r) \<in> set (refEntries ovs p)"
  by (induction ovs p rule: refEntries.induct) auto

lemma refEntries_below:
  "(i, e') \<in> set ovs \<Longrightarrow> set (refEntries (overrides e') (p @ [i])) \<subseteq> set (refEntries ovs p)"
  by (induction ovs p rule: refEntries.induct) auto

lemma entryIn_refEntries:
  "entryIn ovs q e \<Longrightarrow> ref e = Some r \<Longrightarrow> (p @ q, r) \<in> set (refEntries ovs p)"
proof (induction arbitrary: p rule: entryIn.induct)
  case (here i e ovs)
  then show ?case by (simp add: refEntries_here)
next
  case (below i e' ovs q e)
  have "((p @ [i]) @ q, r) \<in> set (refEntries (overrides e') (p @ [i]))"
    using below.IH[OF below.prems] .
  then show ?case using refEntries_below[OF below.hyps(1), of p] by auto
qed

lemma refEntries_sound:
  "(path, r) \<in> set (refEntries ovs p) \<Longrightarrow> \<exists>q e. path = p @ q \<and> entryIn ovs q e \<and> ref e = Some r"
proof (induction ovs p rule: refEntries.induct)
  case (1 p)
  then show ?case by simp
next
  case (2 i ov rest p)
  from "2.prems" consider
      (a) "ref ov = Some r" "path = p @ [i]"
    | (b) "(path, r) \<in> set (refEntries (overrides ov) (p @ [i]))"
    | (c) "(path, r) \<in> set (refEntries rest p)"
    by (auto split: option.splits)
  then show ?case
  proof cases
    case a
    have "entryIn ((i, ov) # rest) [i] ov" by (rule entryIn.here) simp
    with a show ?thesis by blast
  next
    case b
    from "2.IH"(1)[OF b] obtain q e where q: "path = (p @ [i]) @ q" "entryIn (overrides ov) q e" "ref e = Some r"
      by blast
    have "entryIn ((i, ov) # rest) (i # q) e"
      by (rule entryIn.below[OF _ q(2)]) simp
    with q show ?thesis by auto
  next
    case c
    from "2.IH"(2)[OF c] obtain q e where q: "path = p @ q" "entryIn rest q e" "ref e = Some r"
      by blast
    then show ?thesis using entryIn_Cons by blast
  qed
qed

lemma refEntries_entryIn:
  "(path, r) \<in> set (refEntries ovs p) \<longleftrightarrow> (\<exists>q e. path = p @ q \<and> entryIn ovs q e \<and> ref e = Some r)"
  using refEntries_sound entryIn_refEntries by blast

lemma refEntries_empty_iff:
  "refEntries ovs p = [] \<longleftrightarrow> (\<forall>q e. entryIn ovs q e \<longrightarrow> ref e = None)"
proof
  assume "refEntries ovs p = []"
  then show "\<forall>q e. entryIn ovs q e \<longrightarrow> ref e = None"
    using entryIn_refEntries[of ovs _ _ _ p] by (metis empty_iff list.set(1) not_Some_eq)
next
  assume none: "\<forall>q e. entryIn ovs q e \<longrightarrow> ref e = None"
  show "refEntries ovs p = []"
  proof (rule ccontr)
    assume "refEntries ovs p \<noteq> []"
    then obtain path r where "(path, r) \<in> set (refEntries ovs p)"
      by (cases "refEntries ovs p") auto
    from refEntries_sound[OF this] none show False by auto
  qed
qed


lemma warnUnusedOverrides_entries:
  "warnUnusedOverrides W ovs p s
     = (if refEntries ovs p = [] then s
        else s\<lparr>warnings := warnings s
                  @ [UnusedOverrides (joinComma (map (printEntry (showFlakeRef W)) (refEntries ovs p)))]\<rparr>)"
  by (simp add: warnUnusedOverrides_def printOverrides_refines(1) joinComma_entries_empty warn_def)

lemma attachChild_overrides:
  "attachChild i c inp ovs node r = Some (Ok (node', inp', ovs') s') \<Longrightarrow> ovs' = ovs"
  by (auto simp: attachChild_def split: option.splits outcome.splits)

lemma popParent_overrides:
  "popParent x = Some (Ok (node', inp', ovs') s') \<Longrightarrow> \<exists>s''. x = Some (Ok (node', inp', ovs') s'')"
  by (auto simp: popParent_def split: option.splits outcome.splits)

lemma lockReuse_overrides:
  "lockReuse rec W F inputPath i inp ovs node l s = Some (Ok (node', inp', ovs') s') \<Longrightarrow> ovs' = ovs"
  by (auto simp: lockReuse_def Let_def split: if_splits outcome.splits dest: attachChild_overrides)

lemma lockFresh_overrides:
  "lockFresh rec W F inputPath i orig inp ovs node oldLock r s = Some (Ok (node', inp', ovs') s') \<Longrightarrow> ovs' = ovs"
  by (auto simp: lockFresh_def Let_def split: if_splits outcome.splits sum.splits
      dest!: popParent_overrides dest: attachChild_overrides)

lemma erase_absent: "map_of m k = None \<Longrightarrow> erase k m = m"
  by (induction m) (auto simp: erase_def split: if_splits)

lemma applyOverride_overrides:
  "snd (snd (applyOverride W inputPath i orig ovs)) = erase i ovs"
  by (simp add: applyOverride_def Let_def erase_absent split: option.splits)

lemma lockInput_overrides:
  assumes "lockInput rec W F p old i orig ovs node s = Some (Ok (node', inp', ovs') s')"
  shows "ovs' = erase i ovs"
proof -
  define applied where "applied = applyOverride W (p @ [i]) i orig ovs"
  have e: "snd (snd applied) = erase i ovs"
    by (simp add: applied_def applyOverride_overrides)
  show ?thesis
    using assms e unfolding lockInput_def Let_def applied_def[symmetric]
    by (auto split: if_splits option.splits dest: lockFresh_overrides lockReuse_overrides)
qed

lemma lockInputs_overrides:
  "lockInputs rec W F p old ins ovs node s = Some (Ok (node', ins', ovs') s') \<Longrightarrow>
     ovs' = filter (\<lambda>kv. fst kv \<notin> fst ` set ins) ovs"
proof (induction ins arbitrary: ovs node s node' ins' ovs' s')
  case Nil
  then show ?case by simp
next
  case (Cons ii rest)
  from Cons.prems obtain node1 inp1 ovs1 s1 where
    a: "lockInput rec W F p old (fst ii) (snd ii) ovs node s = Some (Ok (node1, inp1, ovs1) s1)"
    by (auto split: option.splits outcome.splits)
  with Cons.prems obtain rest2 where
    b: "lockInputs rec W F p old rest ovs1 node1 s1 = Some (Ok (node', rest2, ovs') s')"
    by (auto split: option.splits outcome.splits)
  have "ovs1 = erase (fst ii) ovs"
    using lockInput_overrides[OF a] .
  moreover have "ovs' = filter (\<lambda>kv. fst kv \<notin> fst ` set rest) ovs1"
    using Cons.IH[OF b] .
  ultimately show ?case
    by (auto simp: erase_def intro: filter_cong)
qed

text \<open>
  C10. The text that \<^verbatim>\<open>printOverrides\<close> builds is the comma separated list of
  the entries of the override map that carry a reference, each printed as path and
  reference; these are exactly the entries, direct or nested, with a reference.
  When no entry carries one, the warning step leaves the state as it is: nothing is
  printed. When some entry carries one, the step appends one warning with that text
  to the warnings and changes nothing else. The map that the step reports on is
  what the loop over the inputs has left: the overrides it started with, without
  the entries for the inputs of the node. The step never raises: when the loop has
  returned, \<^verbatim>\<open>computeLocks\<close> returns what the loop has built, in the state of
  the loop with that warning, if any, appended.
\<close>

theorem unused_override_warning:
  "printOverrides (showFlakeRef W) ovs p
     = joinComma (map (printEntry (showFlakeRef W)) (refEntries ovs p))
   \<and> (((path, r) \<in> set (refEntries ovs p))
        = (\<exists>q e. path = p @ q \<and> entryIn ovs q e \<and> ref e = Some r))
   \<and> ((\<forall>q e. entryIn ovs q e \<longrightarrow> ref e = None) \<longrightarrow> warnUnusedOverrides W ovs p s = s)
   \<and> (entryIn ovs q' e' \<and> ref e' = Some r' \<longrightarrow>
        warnUnusedOverrides W ovs p s
          = s\<lparr>warnings := warnings s
                   @ [UnusedOverrides (joinComma (map (printEntry (showFlakeRef W)) (refEntries ovs p)))]\<rparr>)
   \<and> (lockInputs rec W F p oldNode flakeInputs ovs0 [] s0 = Some (Ok (node, ins, ovs) s) \<longrightarrow>
        ovs = filter (\<lambda>kv. fst kv \<notin> fst ` set flakeInputs) ovs0
        \<and> computeLocksBody rec W F flakeInputs p oldNode ovs0 s0
            = Some (Ok (node, ins, ovs)
                      (if refEntries ovs p = [] then s
                       else s\<lparr>warnings := warnings s
                                @ [UnusedOverrides
                                     (joinComma (map (printEntry (showFlakeRef W)) (refEntries ovs p)))]\<rparr>)))"
proof (intro conjI impI)
  show "printOverrides (showFlakeRef W) ovs p
          = joinComma (map (printEntry (showFlakeRef W)) (refEntries ovs p))"
    by (rule printOverrides_refines(1))
  show "((path, r) \<in> set (refEntries ovs p))
          = (\<exists>q e. path = p @ q \<and> entryIn ovs q e \<and> ref e = Some r)"
    by (rule refEntries_entryIn)
  show "warnUnusedOverrides W ovs p s = s" if "\<forall>q e. entryIn ovs q e \<longrightarrow> ref e = None"
  proof -
    have "refEntries ovs p = []"
      using that refEntries_empty_iff by blast
    then show ?thesis
      by (simp add: warnUnusedOverrides_entries)
  qed
  show "warnUnusedOverrides W ovs p s
          = s\<lparr>warnings := warnings s
                   @ [UnusedOverrides (joinComma (map (printEntry (showFlakeRef W)) (refEntries ovs p)))]\<rparr>"
    if "entryIn ovs q' e' \<and> ref e' = Some r'"
  proof -
    have "refEntries ovs p \<noteq> []"
      using that refEntries_empty_iff[of ovs p] by auto
    then show ?thesis
      by (simp add: warnUnusedOverrides_entries)
  qed
  show "ovs = filter (\<lambda>kv. fst kv \<notin> fst ` set flakeInputs) ovs0"
    if "lockInputs rec W F p oldNode flakeInputs ovs0 [] s0 = Some (Ok (node, ins, ovs) s)"
    using that by (rule lockInputs_overrides)
  show "computeLocksBody rec W F flakeInputs p oldNode ovs0 s0
            = Some (Ok (node, ins, ovs)
                      (if refEntries ovs p = [] then s
                       else s\<lparr>warnings := warnings s
                                @ [UnusedOverrides
                                     (joinComma (map (printEntry (showFlakeRef W)) (refEntries ovs p)))]\<rparr>))"
    if "lockInputs rec W F p oldNode flakeInputs ovs0 [] s0 = Some (Ok (node, ins, ovs) s)"
    using that by (simp add: computeLocksBody_def warnUnusedOverrides_entries)
qed


theorem unused_override_warning_witness:
  "computeLocks 1 (testWorld eval1 noLock (\<lambda>p. False)) defaultFlags [] [] None ovsNoRef emptyState
     = Some (Ok ([], [], ovsNoRef) emptyState)
   \<and> (\<exists>node ins s.
         computeLocks 2 (testWorld eval1 noLock (\<lambda>p. False)) defaultFlags
             [(''dep'', FlakeInput (Some (pathRef ''/a'')) True None False [])] [] None ovsDepNested emptyState
           = Some (Ok (node, ins, ovsNested) s)
         \<and> warnings s = [UnusedOverrides ''nonexistent.y=path:/b''])
   \<and> warnUnusedOverrides (testWorld eval1 noLock (\<lambda>p. False)) ovsNested [] emptyState
       = emptyState\<lparr>warnings := [UnusedOverrides ''nonexistent.y=path:/b'']\<rparr>
   \<and> enterOverrides (inputOverrides flagsOverride) [] = Inr ovsDepNested
   \<and> (case lockFlake 2 (testWorld eval1 noLock (\<lambda>p. False)) (pathRef ''/top'') flagsOverride emptyState of
         Some (Ok lf s) \<Rightarrow>
           warnings s = [UnusedOverrides ''nonexistent.y=path:/b'',
                         NotWritingLockFile (pathRef ''/top'') ''diff'']
       | _ \<Rightarrow> False)"
proof -
  let ?W = "testWorld eval1 noLock (\<lambda>p. False)"
  let ?dep = "[(''dep'', FlakeInput (Some (pathRef ''/a'')) True None False [])]"
  have none: "\<forall>q e. entryIn ovsNoRef q e \<longrightarrow> ref e = None"
    using refEntries_empty_iff[of ovsNoRef "[]"] by (simp add: ovsNoRef_def)
  have loop0: "lockInputs (computeLocks 0 ?W defaultFlags) ?W defaultFlags [] None [] ovsNoRef [] emptyState
                 = Some (Ok ([], [], ovsNoRef) emptyState)"
    by simp
  have "case lockInputs (computeLocks 1 ?W defaultFlags) ?W defaultFlags [] None ?dep ovsDepNested []
               emptyState of
          Some (Ok r s) \<Rightarrow> snd (snd r) = ovsNested \<and> warnings s = []
        | _ \<Rightarrow> False"
    by code_simp
  then obtain node ins s where
    loop1: "lockInputs (computeLocks 1 ?W defaultFlags) ?W defaultFlags [] None ?dep ovsDepNested []
              emptyState = Some (Ok (node, ins, ovsNested) s)"
    and w: "warnings s = []"
    by (auto split: option.splits outcome.splits)
  have entries: "refEntries ovsNested [] = [([''nonexistent'', ''y''], pathRef ''/b'')]"
    by (simp add: ovsNested_def)
  have str: "joinComma (map (printEntry (showFlakeRef ?W)) (refEntries ovsNested []))
                = ''nonexistent.y=path:/b''"
    by (simp add: entries testWorld_def pathRef_def)
  have one: "computeLocks 1 ?W defaultFlags = computeLocksBody (computeLocks 0 ?W defaultFlags) ?W defaultFlags"
    and two: "computeLocks 2 ?W defaultFlags = computeLocksBody (computeLocks 1 ?W defaultFlags) ?W defaultFlags"
    by (simp_all add: numeral_2_eq_2 One_nat_def del: computeLocks.simps(1))
  from unused_override_warning[where W = ?W and ovs = ovsNoRef and p = "[]" and s = emptyState
      and rec = "computeLocks 0 ?W defaultFlags" and F = defaultFlags and oldNode = None
      and flakeInputs = "[]" and ?ovs0.0 = ovsNoRef and ?s0.0 = emptyState and node = "[]" and ins = "[]"]
    none loop0
  have a: "computeLocksBody (computeLocks 0 ?W defaultFlags) ?W defaultFlags [] [] None ovsNoRef emptyState
          = Some (Ok ([], [], ovsNoRef) emptyState)"
    using refEntries_empty_iff[of ovsNoRef "[]"] by simp
  from unused_override_warning[where W = ?W and ovs = ovsNested and p = "[]" and s = s
      and rec = "computeLocks 1 ?W defaultFlags" and F = defaultFlags and oldNode = None
      and flakeInputs = ?dep and ?ovs0.0 = ovsDepNested and ?s0.0 = emptyState and node = node and ins = ins]
    loop1
  have b: "computeLocksBody (computeLocks 1 ?W defaultFlags) ?W defaultFlags ?dep [] None ovsDepNested emptyState
          = Some (Ok (node, ins, ovsNested) (s\<lparr>warnings := warnings s @ [UnusedOverrides ''nonexistent.y=path:/b'']\<rparr>))"
    using entries str by simp
  have "entryIn ovsNested [''nonexistent'', ''y''] (FlakeInput (Some (pathRef ''/b'')) True None False [])"
    by (rule entryIn.below[where e' = "FlakeInput None True None False
                                        [(''y'', FlakeInput (Some (pathRef ''/b'')) True None False [])]"])
      (simp_all add: ovsNested_def entryIn.here)
  with unused_override_warning[where W = ?W and ovs = ovsNested and p = "[]" and s = emptyState
      and q' = "[''nonexistent'', ''y'']" and e' = "FlakeInput (Some (pathRef ''/b'')) True None False []"
      and r' = "pathRef ''/b''"]
  have e: "warnUnusedOverrides ?W ovsNested [] emptyState
             = emptyState\<lparr>warnings := [UnusedOverrides ''nonexistent.y=path:/b'']\<rparr>"
    using str by (simp add: emptyState_def)
  have c: "enterOverrides (inputOverrides flagsOverride) [] = Inr ovsDepNested"
    by code_simp
  have d: "case lockFlake 2 ?W (pathRef ''/top'') flagsOverride emptyState of
         Some (Ok lf s) \<Rightarrow>
           warnings s = [UnusedOverrides ''nonexistent.y=path:/b'',
                         NotWritingLockFile (pathRef ''/top'') ''diff'']
       | _ \<Rightarrow> False"
    by code_simp
  show ?thesis
    using a b c d e w unfolding one two by simp
qed

section \<open>The formals of the outputs function\<close>

lemma map_of_insort_key:
  "k \<notin> fst ` set m \<Longrightarrow> map_of (insort_key fst (k, v) m) = (map_of m)(k \<mapsto> v)"
  by (induction m) (auto simp: fun_eq_iff)

lemma map_of_emplace:
  "map_of (emplace k v m) k' =
     (if k' = k \<and> k \<notin> fst ` set m then Some v else map_of m k')"
  by (auto simp: emplace_def map_of_insort_key)

lemma keys_emplace: "fst ` set (emplace k v m) = insert k (fst ` set m)"
  by (auto simp: emplace_def set_insort_key)

lemma injectFormals_declared:
  "injectFormals W fs ins = Inr ins' \<Longrightarrow> d \<in> fst ` set ins \<Longrightarrow> map_of ins' d = map_of ins d"
proof (induction fs arbitrary: ins)
  case Nil
  then show ?case by simp
next
  case (Cons formal rest)
  show ?case
  proof (cases "formal = ''self''")
    case True
    then show ?thesis using Cons by simp
  next
    case False
    then obtain r where r: "parseFlakeRef_name W formal = Inr r"
      and rest: "injectFormals W rest (emplace formal (FlakeInput (Some r) True None False []) ins) = Inr ins'"
      using Cons.prems(1) by (auto split: sum.splits)
    have "map_of ins' d = map_of (emplace formal (FlakeInput (Some r) True None False []) ins) d"
      by (rule Cons.IH[OF rest]) (use Cons.prems(2) in \<open>simp add: keys_emplace\<close>)
    also have "\<dots> = map_of ins d"
      using Cons.prems(2) by (auto simp: map_of_emplace)
    finally show ?thesis .
  qed
qed

lemma injectFormals_injected:
  "injectFormals W fs ins = Inr ins' \<Longrightarrow> f \<in> set fs \<Longrightarrow> f \<noteq> ''self'' \<Longrightarrow> f \<notin> fst ` set ins \<Longrightarrow>
     \<exists>r. defaultIndirectRef W f = Inr r \<and> map_of ins' f = Some (FlakeInput (Some r) True None False [])"
proof (induction fs arbitrary: ins)
  case Nil
  then show ?case by simp
next
  case (Cons formal rest)
  show ?case
  proof (cases "formal = ''self''")
    case True
    then show ?thesis using Cons by auto
  next
    case False
    then obtain r where r: "parseFlakeRef_name W formal = Inr r"
      and rest: "injectFormals W rest (emplace formal (FlakeInput (Some r) True None False []) ins) = Inr ins'"
      using Cons.prems(1) by (auto split: sum.splits)
    show ?thesis
    proof (cases "f = formal")
      case True
      have "map_of ins' f = map_of (emplace formal (FlakeInput (Some r) True None False []) ins) f"
        by (rule injectFormals_declared[OF rest]) (simp add: keys_emplace True)
      also have "\<dots> = Some (FlakeInput (Some r) True None False [])"
        using Cons.prems(4) True by (simp add: map_of_emplace)
      finally show ?thesis using r True by (auto simp: parseFlakeRef_name_def)
    next
      case other: False
      show ?thesis
        by (rule Cons.IH[OF rest]) (use Cons.prems other in \<open>auto simp: keys_emplace\<close>)
    qed
  qed
qed

lemma parseManifest_inputs:
  assumes "parseManifest W vInfo fl0 = Inr fl"
    and "parseInputsBlock W vInfo = Inr declared"
    and "map_of vInfo ''outputs'' = Some (VLambda True fs)"
  shows "injectFormals W fs declared = Inr (inputs fl)"
  using assms
  by (auto simp: parseManifest_def parseOutputs_def parseDescription_def
      split: sum.splits option.splits Value.splits if_splits)

text \<open>
  C7. When \<^verbatim>\<open>getFlake\<close> has returned a flake, \<open>declared\<close> being the inputs
  parsed from the inputs block of the evaluated manifest and \<open>fs\<close> the formals of
  its outputs function: every formal other than \<open>self\<close> that is not declared is
  an input of the flake, with the default indirect reference of its name, the flake
  flag set, and neither follows nor overrides; and every declared input is in the
  flake's inputs as it was parsed.
\<close>

theorem formals_injected:
  assumes "getFlake W origRef allowLookup s = Ok fl s'"
    and "fetchOrSubstituteTree W origRef allowLookup s = Ok (tree, rref, lref) s1"
    and "evalFile W (canonPath W (actualPath tree @ ''/'' @ subdir lref @ ''/flake.nix'')) = Inr (VAttrs vInfo)"
    and "parseInputsBlock W vInfo = Inr declared"
    and "map_of vInfo ''outputs'' = Some (VLambda True fs)"
  shows "(\<forall>f \<in> set fs. f \<noteq> ''self'' \<and> f \<notin> fst ` set declared \<longrightarrow>
            (\<exists>r. defaultIndirectRef W f = Inr r
                \<and> map_of (inputs fl) f = Some (FlakeInput (Some r) True None False [])))
       \<and> (\<forall>d \<in> fst ` set declared. map_of (inputs fl) d = map_of declared d)"
proof -
  obtain fl0 where "parseManifest W vInfo fl0 = Inr fl"
    using assms(1,2,3)
    by (auto simp: getFlake_def Let_def split: if_splits sum.splits)
  then have inj: "injectFormals W fs declared = Inr (inputs fl)"
    using parseManifest_inputs assms(4,5) by blast
  show ?thesis
    using injectFormals_injected[OF inj] injectFormals_declared[OF inj] by blast
qed

theorem formals_injected_witness:
  "\<exists>fl s'. getFlake (testWorld eval7 noLock (\<lambda>p. False)) (pathRef ''/top'') True emptyState = Ok fl s'
     \<and> map_of (inputs fl) ''utils'' = Some (FlakeInput (Some (indirectRef ''utils'')) True None False [])
     \<and> map_of (inputs fl) ''dep'' = Some (FlakeInput (Some (pathRef ''/a'')) True None False [])"
proof -
  let ?W = "testWorld eval7 noLock (\<lambda>p. False)"
  let ?vInfo = "[(''inputs'', VAttrs [(''dep'', VAttrs [(''url'', VString ''/a'')])]),
                 (''outputs'', VLambda True [''self'', ''dep'', ''utils''])]"
  let ?declared = "[(''dep'', FlakeInput (Some (pathRef ''/a'')) True None False [])]"
  have "case getFlake ?W (pathRef ''/top'') True emptyState of Ok fl s' \<Rightarrow> True | _ \<Rightarrow> False"
    by code_simp
  then obtain fl s' where run: "getFlake ?W (pathRef ''/top'') True emptyState = Ok fl s'"
    by (auto split: outcome.splits)
  have "case fetchOrSubstituteTree ?W (pathRef ''/top'') True emptyState of
          Ok r s1 \<Rightarrow> r = (testTree ''/top'', pathRef ''/top'', lockedPathRef ''/top'') | _ \<Rightarrow> False"
    by code_simp
  then obtain s1 where fetch: "fetchOrSubstituteTree ?W (pathRef ''/top'') True emptyState
       = Ok (testTree ''/top'', pathRef ''/top'', lockedPathRef ''/top'') s1"
    by (auto split: outcome.splits)
  have ev: "evalFile ?W (canonPath ?W (actualPath (testTree ''/top'') @ ''/'' @ subdir (lockedPathRef ''/top'')
                @ ''/flake.nix'')) = Inr (VAttrs ?vInfo)"
    by (simp add: testWorld_def testTree_def lockedPathRef_def eval7_def)
  have decl: "parseInputsBlock ?W ?vInfo = Inr ?declared"
    by code_simp
  have out: "map_of ?vInfo ''outputs'' = Some (VLambda True [''self'', ''dep'', ''utils''])"
    by simp
  have dflt: "defaultIndirectRef ?W ''utils'' = Inr (indirectRef ''utils'')"
    by (simp add: defaultIndirectRef_def testWorld_def indirectRef_def)
  from formals_injected[OF run fetch ev decl out] dflt
  have "map_of (inputs fl) ''utils'' = Some (FlakeInput (Some (indirectRef ''utils'')) True None False [])"
    and "map_of (inputs fl) ''dep'' = Some (FlakeInput (Some (pathRef ''/a'')) True None False [])"
    by auto
  with run show ?thesis by blast
qed


section \<open>The parents stack and the effects of the solver\<close>

lemma frame_refl [simp]: "frame s s"
  by (simp add: frame_def)

lemma frame_trans: "frame s s1 \<Longrightarrow> frame s1 s2 \<Longrightarrow> frame s s2"
  by (simp add: frame_def)

lemma frame_callFetchTree: "frame s (stateOf (callFetchTree W r s))"
  by (simp add: callFetchTree_def frame_def Let_def split: sum.splits)

lemma frame_returnFetched: "frame s (stateOf (returnFetched W o1 r1 f s))"
  by (simp add: returnFetched_def frame_def Let_def)

lemma lookup_append:
  "lookupInFlakeCache (c @ d) r =
     (case lookupInFlakeCache c r of Some f \<Rightarrow> Some f | None \<Rightarrow> lookupInFlakeCache d r)"
  by (induction c) auto

lemma frame_cache_append: "frame s s1 \<Longrightarrow> frame s (s1\<lparr>flakeCache := flakeCache s1 @ d\<rparr>)"
  by (simp add: frame_def lookup_append)

lemma frame_fetchOrSubstituteTree: "frame s (stateOf (fetchOrSubstituteTree W r a s))"
proof -
  have step: "frame s (stateOf (returnFetched W o1 r1 f (s1\<lparr>flakeCache := flakeCache s1 @ d\<rparr>)))"
    if "frame s s1" for o1 r1 f s1 d
    using frame_trans[OF frame_cache_append[OF that] frame_returnFetched] .
  have fetch: "frame s s1" if "callFetchTree W x s = Ok f s1" for x f s1
    using frame_callFetchTree[of s W x] that by simp
  have fetch': "frame s s1" if "callFetchTree W x s = Raised e s1" for x e s1
    using frame_callFetchTree[of s W x] that by simp
  show ?thesis
    unfolding fetchOrSubstituteTree_def
    by (auto split: option.splits outcome.splits sum.splits
        intro: frame_returnFetched step fetch fetch')
qed

lemma frame_getFlake: "frame s (stateOf (getFlake W r a s))"
proof (cases "fetchOrSubstituteTree W r a s")
  case (Raised e s1)
  then show ?thesis
    using frame_fetchOrSubstituteTree[of s W r a] by (simp add: getFlake_def)
next
  case (Ok x s1)
  then have f1: "frame s s1"
    using frame_fetchOrSubstituteTree[of s W r a] by simp
  have f2: "frame s (warn w s1)" for w
    using f1 by (simp add: frame_def warn_def)
  obtain t rr lr where x: "x = (t, rr, lr)" by (cases x)
  show ?thesis
    unfolding getFlake_def Ok x
    by (auto simp: Let_def f1 f2 split: sum.splits Value.splits)
qed

lemma frame_warnUnusedOverrides: "frame s (warnUnusedOverrides W ovs p s)"
  by (simp add: warnUnusedOverrides_def frame_def warn_def Let_def)

lemma frame_attachChild:
  "attachChild i c inp ovs node r = Some r' \<Longrightarrow> \<exists>r0. r = Some r0 \<and> stateOf r' = stateOf r0"
  by (auto simp: attachChild_def split: option.splits outcome.splits)

lemma frame_lockReuse:
  assumes "framesRec rec" and "lockReuse rec W F inputPath i inp ovs node oldLock s = Some r"
  shows "frame s (stateOf r)"
proof (cases "hasChildUpdate F inputPath")
  case True
  show ?thesis
  proof (cases "getFlake W (lockedRef oldLock) False s")
    case (Raised e s1)
    then show ?thesis
      using assms(2) True frame_getFlake[of s W "lockedRef oldLock" False]
      by (auto simp: lockReuse_def)
  next
    case (Ok fl s1)
    then have f1: "frame s s1"
      using frame_getFlake[of s W "lockedRef oldLock" False] by simp
    from assms(2) True Ok obtain r0 where
      "rec (inputs fl) inputPath (Some (nodeInputs oldLock)) (overrides inp) s1 = Some r0"
      "stateOf r = stateOf r0"
      by (auto simp: lockReuse_def dest: frame_attachChild)
    then show ?thesis
      using assms(1) f1 unfolding framesRec_def by (metis frame_trans)
  qed
next
  case False
  from assms(2) False obtain r0 where
    "rec (fakeInputs oldLock) inputPath (Some (nodeInputs oldLock)) (overrides inp) s = Some r0"
    "stateOf r = stateOf r0"
    by (auto simp: lockReuse_def dest: frame_attachChild)
  then show ?thesis
    using assms(1) unfolding framesRec_def by metis
qed

lemma popParent_Some:
  "popParent x = Some r \<Longrightarrow> \<exists>r0. x = Some r0 \<and> stateOf r = (stateOf r0)\<lparr>parents := butlast (parents (stateOf r0))\<rparr>"
  by (auto simp: popParent_def split: option.splits outcome.splits)

lemma frame_push_pop:
  "frame (s1\<lparr>parents := parents s1 @ [x]\<rparr>) s3 \<Longrightarrow> frame s1 (s3\<lparr>parents := butlast (parents s3)\<rparr>)"
  by (simp add: frame_def)

lemma frame_lockFresh:
  assumes "framesRec rec" and "lockFresh rec W F inputPath i orig inp ovs node oldLock r s = Some res"
  shows "frame s (stateOf res)"
proof (cases "\<not> allowMutable F \<and> \<not> isImmutable W (input r)")
  case True
  then show ?thesis using assms(2) by (auto simp: lockFresh_def)
next
  case mut: False
  show ?thesis
  proof (cases "isFlake inp")
    case False
    then show ?thesis
      using assms(2) mut frame_fetchOrSubstituteTree[of s W r "useRegistries F"]
      by (auto simp: lockFresh_def split: outcome.splits)
  next
    case True
    show ?thesis
    proof (cases "getFlake W r (useRegistries F) s")
      case (Raised e s1)
      then show ?thesis
        using assms(2) mut True frame_getFlake[of s W r "useRegistries F"]
        by (auto simp: lockFresh_def)
    next
      case (Ok fl s1)
      then have f1: "frame s s1"
        using frame_getFlake[of s W r "useRegistries F"] by simp
      show ?thesis
      proof (cases "r \<in> set (parents s1)")
        case True
        then show ?thesis
          using assms(2) mut \<open>isFlake inp\<close> Ok f1 by (auto simp: lockFresh_def Let_def)
      next
        case False
        let ?s2 = "s1\<lparr>parents := parents s1 @ [r]\<rparr>"
        from assms(2) mut \<open>isFlake inp\<close> Ok False
        obtain r0 where r0: "stateOf res = (stateOf r0)\<lparr>parents := butlast (parents (stateOf r0))\<rparr>"
          and body: "(case freshBaseline W oldLock fl of
                        Inl e \<Rightarrow> Some (Raised e ?s2)
                      | Inr baseline \<Rightarrow>
                          attachChild i (LockedNode (flake_lockedRef fl)
                                (case ref orig of Some orig' \<Rightarrow> orig' | None \<Rightarrow> r) True []) inp ovs node
                            (rec (inputs fl) inputPath (Some baseline) (overrides inp) ?s2)) = Some r0"
          by (auto simp: lockFresh_def Let_def dest!: popParent_Some)
        have "frame ?s2 (stateOf r0)"
        proof (cases "freshBaseline W oldLock fl")
          case (Inl e)
          then show ?thesis using body by auto
        next
          case (Inr baseline)
          then obtain r1 where "rec (inputs fl) inputPath (Some baseline) (overrides inp) ?s2 = Some r1"
            "stateOf r0 = stateOf r1"
            using body by (auto dest: frame_attachChild)
          then show ?thesis
            using assms(1) unfolding framesRec_def by metis
        qed
        then have "frame s1 (stateOf res)"
          unfolding r0 by (rule frame_push_pop)
        with f1 show ?thesis by (rule frame_trans)
      qed
    qed
  qed
qed

lemma frame_lockInput:
  assumes "framesRec rec" and "lockInput rec W F prefix oldNode i orig ovs node s = Some res"
  shows "frame s (stateOf res)"
proof -
  have upd: "frame s (s\<lparr>updatesUsed := u\<rparr>)" for u
    by (simp add: frame_def)
  have via: "frame s (stateOf res)" if "frame (s\<lparr>updatesUsed := u\<rparr>) (stateOf res)" for u
    using frame_trans[OF upd that] .
  show ?thesis
    using assms(2)
    unfolding lockInput_def Let_def
    by (auto split: option.splits if_splits
        intro!: via dest: frame_lockReuse[OF assms(1)] frame_lockFresh[OF assms(1)])
qed

lemma frame_lockInputs:
  assumes "framesRec rec"
  shows "lockInputs rec W F prefix oldNode ins ovs node s = Some res \<Longrightarrow> frame s (stateOf res)"
proof (induction ins arbitrary: ovs node s res)
  case Nil
  then show ?case by auto
next
  case (Cons ii rest)
  from Cons.prems obtain r1 where r1: "lockInput rec W F prefix oldNode (fst ii) (snd ii) ovs node s = Some r1"
    by (auto split: option.splits)
  have f1: "frame s (stateOf r1)"
    by (rule frame_lockInput[OF assms r1])
  show ?case
  proof (cases r1)
    case (Raised e s1)
    then show ?thesis using Cons.prems r1 f1 by auto
  next
    case (Ok x s1)
    obtain node1 inp1 ovs1 where x: "x = (node1, inp1, ovs1)" by (cases x)
    from Cons.prems r1 Ok x obtain r2 where
      r2: "lockInputs rec W F prefix oldNode rest ovs1 node1 s1 = Some r2" and "stateOf res = stateOf r2"
      by (auto split: option.splits outcome.splits)
    then show ?thesis
      using Cons.IH[OF r2] f1 Ok by (auto intro: frame_trans)
  qed
qed

lemma frame_computeLocksBody:
  assumes "framesRec rec"
  shows "framesRec (computeLocksBody rec W F)"
  unfolding framesRec_def
proof (intro allI impI)
  fix ins p old ovs s r
  assume run: "computeLocksBody rec W F ins p old ovs s = Some r"
  then obtain r1 where r1: "lockInputs rec W F p old ins ovs [] s = Some r1"
    by (auto simp: computeLocksBody_def split: option.splits)
  have f1: "frame s (stateOf r1)"
    by (rule frame_lockInputs[OF assms r1])
  show "frame s (stateOf r)"
  proof (cases r1)
    case (Raised e s1)
    then show ?thesis using run r1 f1 by (auto simp: computeLocksBody_def)
  next
    case (Ok x s1)
    then show ?thesis
      using run r1 f1 frame_warnUnusedOverrides
      by (auto simp: computeLocksBody_def intro: frame_trans split: prod.splits)
  qed
qed

lemma frame_computeLocks: "framesRec (computeLocks n W F)"
proof (induction n)
  case 0
  show ?case by (simp add: framesRec_def)
next
  case (Suc n)
  then show ?case by (simp add: frame_computeLocksBody)
qed

section \<open>Circular imports\<close>
















lemma framesRec_checked: "framesRec rec \<Longrightarrow> framesRec (checked W F rec)"
  by (auto simp: framesRec_def checked_def split: if_splits)






lemma frame_computeLocksChecked: "framesRec (computeLocksChecked n W F)"
proof (induction n)
  case 0
  show ?case by (simp add: framesRec_def)
next
  case (Suc n)
  then show ?case by (simp add: frame_computeLocksBody framesRec_checked)
qed





section \<open>An unchanged lock file\<close>

lemma frame_warnUnusedUpdates: "frame s (warnUnusedUpdates F s)"
proof -
  have "frame s (foldl (\<lambda>s' i. if i \<in> U then s' else warn (UnusedUpdateFlag i) s') s0 us)"
    if "frame s s0" for U s0 us
    using that by (induction us arbitrary: s0) (auto simp: frame_def warn_def)
  then show ?thesis by (simp add: warnUnusedUpdates_def)
qed

lemma solveLocks_frame:
  assumes "solveLocks fuel W F fl oldLockFile s1 = Some r"
  shows "frame s1 (stateOf r)"
proof (cases "enterOverrides (inputOverrides F) []")
  case (Inl e)
  then have "r = Raised e s1"
    using assms by (simp add: solveLocks_def)
  then show ?thesis by simp
next
  case (Inr ovs)
  define cl where "cl = computeLocks fuel W F (inputs fl) []
                   (if recreateLockFile F then None else Some (root oldLockFile)) ovs s1"
  have run: "(case cl of
              None \<Rightarrow> None
            | Some (Raised e s2) \<Rightarrow> Some (Raised e s2)
            | Some (Ok (rootInputs, flakeInputs', ovs') s2) \<Rightarrow>
                (case check \<lparr> root = rootInputs \<rparr> of
                   Some e \<Rightarrow> Some (Raised e (warnUnusedUpdates F s2))
                 | None \<Rightarrow> Some (Ok (fl\<lparr>inputs := flakeInputs'\<rparr>, oldLockFile, \<lparr> root = rootInputs \<rparr>)
                             (warnUnusedUpdates F s2)))) = Some r"
    using assms unfolding solveLocks_def cl_def Let_def Inr by simp
  then obtain r2 where r2: "cl = Some r2"
    by (cases cl) auto
  have f2: "frame s1 (stateOf r2)"
    using frame_computeLocks[of fuel W F, unfolded framesRec_def, rule_format, OF r2[unfolded cl_def]] .
  show ?thesis
  proof (cases r2)
    case (Raised e s2)
    then have "r = Raised e s2" using run r2 by simp
    then show ?thesis using f2 Raised by simp
  next
    case ok2: (Ok x s2)
    obtain rootInputs flakeInputs' ovs' where x: "x = (rootInputs, flakeInputs', ovs')"
      by (cases x)
    have f3: "frame s1 (warnUnusedUpdates F s2)"
      using frame_trans[OF f2 frame_warnUnusedUpdates[of "stateOf r2" F]] ok2 by simp
    have "stateOf r = warnUnusedUpdates F s2"
      using run unfolding r2 ok2 x by (cases "check \<lparr> root = rootInputs \<rparr>") auto
    then show ?thesis using f3 by simp
  qed
qed

lemma solve_frame:
  assumes "solve fuel W topRef F s0 = Some r"
  shows "written (stateOf r) = written s0 \<and> changed (stateOf r) = changed s0"
proof -
  define s where "s = s0\<lparr>flakeCache := [], parents := [], updatesUsed := {}\<rparr>"
  have init: "written s = written s0 \<and> changed s = changed s0"
    by (simp add: s_def)
  have wc: "written b = written s0 \<and> changed b = changed s0"
    if "written a = written s0 \<and> changed a = changed s0" and "frame a b" for a b
    using that by (simp add: frame_def)
  have run: "(case getFlake W topRef (useRegistries F) s of
        Raised e s1 \<Rightarrow> Some (Raised e s1)
      | Ok fl s1 \<Rightarrow>
          (case readLockFile W (actualPath (sourceInfo fl) @ ''/''
                                 @ subdir (flake_lockedRef fl) @ ''/flake.lock'') of
             Inl e \<Rightarrow> Some (Raised e s1)
           | Inr oldLockFile \<Rightarrow> solveLocks fuel W F fl oldLockFile s1)) = Some r"
    using assms unfolding solve_def s_def Let_def .
  show ?thesis
  proof (cases "getFlake W topRef (useRegistries F) s")
    case (Raised e s1)
    then have "r = Raised e s1" using run by simp
    moreover have "written s1 = written s0 \<and> changed s1 = changed s0"
      using wc[OF init frame_getFlake[of s W topRef "useRegistries F"]] Raised by simp
    ultimately show ?thesis by simp
  next
    case (Ok fl s1)
    have f1: "written s1 = written s0 \<and> changed s1 = changed s0"
      using wc[OF init frame_getFlake[of s W topRef "useRegistries F"]] Ok by simp
    show ?thesis
    proof (cases "readLockFile W (actualPath (sourceInfo fl) @ ''/'' @ subdir (flake_lockedRef fl) @ ''/flake.lock'')")
      case (Inl e)
      then have "r = Raised e s1" using run Ok by simp
      then show ?thesis using f1 by simp
    next
      case (Inr oldLockFile)
      then have "solveLocks fuel W F fl oldLockFile s1 = Some r"
        using run Ok by simp
      from wc[OF f1 solveLocks_frame[OF this]] show ?thesis .
    qed
  qed
qed

text \<open>
  C8. When the solve returns a new lock file equal to the old one, \<^verbatim>\<open>lockFlake\<close>
  returns the flake and the lock file of the solve in the state that the solve
  left: the last step does nothing, so the top-level flake is not fetched again,
  and no lock file has been written and no file marked as changed since the call
  began.
\<close>

theorem unchanged_lock_persists_nothing:
  assumes "flakesEnabled W"
    and "solve fuel W topRef F s0 = Some (Ok (fl, oldLockFile, newLockFile) s1)"
    and "newLockFile = oldLockFile"
  shows "lockFlake fuel W topRef F s0 = Some (Ok \<lparr> flake = fl, lockFile = newLockFile \<rparr> s1)
       \<and> persist W topRef F fl oldLockFile newLockFile s1 = Ok \<lparr> flake = fl, lockFile = newLockFile \<rparr> s1
       \<and> written s1 = written s0 \<and> changed s1 = changed s0"
proof -
  have p: "persist W topRef F fl oldLockFile newLockFile s1 = Ok \<lparr> flake = fl, lockFile = newLockFile \<rparr> s1"
    using assms(3) by (simp add: persist_def)
  have "lockFlake fuel W topRef F s0 = Some (Ok \<lparr> flake = fl, lockFile = newLockFile \<rparr> s1)"
    using assms(1,2) p by (simp add: lockFlake_def)
  then show ?thesis
    using p solve_frame[OF assms(2)] by simp
qed

theorem unchanged_lock_persists_nothing_witness:
  "\<exists>lf s. lockFlake 3 (testWorld eval1 lockWithDep (\<lambda>p. False)) (pathRef ''/top'') flagsWrite emptyState
            = Some (Ok lf s)
        \<and> lockFile lf = lockedDep \<and> written s = [] \<and> changed s = [] \<and> fetched s = [pathRef ''/top'']"
proof -
  let ?W = "testWorld eval1 lockWithDep (\<lambda>p. False)"
  have "case solve 3 ?W (pathRef ''/top'') flagsWrite emptyState of
          Some (Ok r s) \<Rightarrow> fst (snd r) = lockedDep \<and> snd (snd r) = lockedDep \<and> fetched s = [pathRef ''/top'']
        | _ \<Rightarrow> False"
    by code_simp
  then obtain fl s1 where run: "solve 3 ?W (pathRef ''/top'') flagsWrite emptyState
                                  = Some (Ok (fl, lockedDep, lockedDep) s1)"
    and f: "fetched s1 = [pathRef ''/top'']"
    by (auto split: option.splits outcome.splits)
  have en: "flakesEnabled ?W"
    by (simp add: testWorld_def)
  from unchanged_lock_persists_nothing[OF en run refl]
  have "lockFlake 3 ?W (pathRef ''/top'') flagsWrite emptyState
          = Some (Ok \<lparr> flake = fl, lockFile = lockedDep \<rparr> s1)"
    and "written s1 = written emptyState" and "changed s1 = changed emptyState"
    by simp_all
  then show ?thesis
    using f by (simp add: emptyState_def)
qed

section \<open>Mutable references in pure mode\<close>

lemma lockInputs_raises_after:
  assumes "lockInputs rec W F p old pre ovs0 node0 s0 = Some (Ok (node, pre', ovs) s)"
    and "lockInput rec W F p old i inp0 ovs node s = Some (Raised e s')"
  shows "lockInputs rec W F p old (pre @ (i, inp0) # post) ovs0 node0 s0 = Some (Raised e s')"
  using assms
proof (induction pre arbitrary: ovs0 node0 s0 pre')
  case Nil
  then show ?case by simp
next
  case (Cons ii rest)
  from Cons.prems(1) obtain node1 inp1 ovs1 s1 where
    a: "lockInput rec W F p old (fst ii) (snd ii) ovs0 node0 s0 = Some (Ok (node1, inp1, ovs1) s1)"
    by (auto split: option.splits outcome.splits)
  with Cons.prems(1) obtain rest2 where
    b: "lockInputs rec W F p old rest ovs1 node1 s1 = Some (Ok (node, rest2, ovs) s)"
    by (auto split: option.splits outcome.splits)
  from Cons.IH[OF b Cons.prems(2)] a show ?case
    by simp
qed

lemma lockInput_mutable:
  assumes "applyOverride W (p @ [i]) i originalInput ovs = (inp, hasOverride, ovs')"
    and "follows inp = None" and "ref inp = Some r"
    and "\<not> (\<exists>l. getOldLock F oldNode (p @ [i]) i = Some l \<and> originalRef l = r \<and> \<not> hasOverride)"
    and "\<not> allowMutable F" and "\<not> isImmutable W (input r)"
  shows "lockInput rec W F p oldNode i originalInput ovs node s
           = Some (Raised MutableInPureMode (s\<lparr>updatesUsed := insert (p @ [i]) (updatesUsed s)\<rparr>))"
proof -
  have fresh: "lockFresh rec W F q i a b c d e r s' = Some (Raised MutableInPureMode s')" for q a b c d e s'
    using assms(5,6) by (simp add: lockFresh_def)
  show ?thesis
    using assms by (auto simp: lockInput_def Let_def fresh split: option.splits)
qed

lemma lockFresh_propagates:
  assumes "allowMutable F \<or> isImmutable W (input r)" and "isFlake inp"
    and "getFlake W r (useRegistries F) s = Ok fl s1" and "r \<notin> set (parents s1)"
    and "freshBaseline W oldLock fl = Inr baseline"
    and "rec (inputs fl) inputPath (Some baseline) (overrides inp) (s1\<lparr>parents := parents s1 @ [r]\<rparr>)
           = Some (Raised e s')"
  shows "lockFresh rec W F inputPath i orig inp ovs node oldLock r s
           = Some (Raised e (s'\<lparr>parents := butlast (parents s')\<rparr>))"
  using assms by (auto simp: lockFresh_def Let_def popParent_def attachChild_def)

lemma lockReuse_propagates:
  assumes "if hasChildUpdate F inputPath
           then \<exists>fl s1. getFlake W (lockedRef l) False s = Ok fl s1
                  \<and> rec (inputs fl) inputPath (Some (nodeInputs l)) (overrides inp) s1 = Some (Raised e s')
           else rec (fakeInputs l) inputPath (Some (nodeInputs l)) (overrides inp) s = Some (Raised e s')"
  shows "lockReuse rec W F inputPath i inp ovs node l s = Some (Raised e s')"
  using assms by (auto simp: lockReuse_def Let_def attachChild_def split: if_splits)

lemma lockFlake_propagates:
  assumes "flakesEnabled W"
    and "getFlake W topRef (useRegistries F) (s0\<lparr>flakeCache := [], parents := [], updatesUsed := {}\<rparr>) = Ok fl s1"
    and "readLockFile W (actualPath (sourceInfo fl) @ ''/'' @ subdir (flake_lockedRef fl) @ ''/flake.lock'')
           = Inr oldLockFile"
    and "enterOverrides (inputOverrides F) [] = Inr ovs0"
    and "computeLocks fuel W F (inputs fl) [] (if recreateLockFile F then None else Some (root oldLockFile))
           ovs0 s1 = Some (Raised e s')"
  shows "lockFlake fuel W topRef F s0 = Some (Raised e s')"
  using assms by (simp add: lockFlake_def solve_def solveLocks_def Let_def)

lemma lockInput_fresh_propagates:
  assumes "applyOverride W (p @ [i]) i originalInput ovs = (inp, hasOverride, ovs')"
    and "follows inp = None" and "ref inp = Some r"
    and "\<not> (\<exists>l. getOldLock F oldNode (p @ [i]) i = Some l \<and> originalRef l = r \<and> \<not> hasOverride)"
    and "allowMutable F \<or> isImmutable W (input r)" and "isFlake inp"
    and "getFlake W r (useRegistries F) (s\<lparr>updatesUsed := insert (p @ [i]) (updatesUsed s)\<rparr>) = Ok fl s1"
    and "r \<notin> set (parents s1)"
    and "freshBaseline W (getOldLock F oldNode (p @ [i]) i) fl = Inr baseline"
    and "rec (inputs fl) (p @ [i]) (Some baseline) (overrides inp) (s1\<lparr>parents := parents s1 @ [r]\<rparr>)
           = Some (Raised e s')"
  shows "lockInput rec W F p oldNode i originalInput ovs node s
           = Some (Raised e (s'\<lparr>parents := butlast (parents s')\<rparr>))"
proof -
  have fresh: "lockFresh rec W F (p @ [i]) i inp inp ovs' node (getOldLock F oldNode (p @ [i]) i) r
                 (s\<lparr>updatesUsed := insert (p @ [i]) (updatesUsed s)\<rparr>)
               = Some (Raised e (s'\<lparr>parents := butlast (parents s')\<rparr>))"
    by (rule lockFresh_propagates[OF assms(5) assms(6) assms(7) assms(8) assms(9)]) (rule assms(10))
  show ?thesis
    using assms(1-4) fresh by (auto simp: lockInput_def Let_def split: option.splits)
qed

lemma lockInput_reuse_propagates:
  assumes "applyOverride W (p @ [i]) i originalInput ovs = (inp, hasOverride, ovs')"
    and "follows inp = None" and "ref inp = Some r"
    and "getOldLock F oldNode (p @ [i]) i = Some l" and "originalRef l = r" and "\<not> hasOverride"
    and "if hasChildUpdate F (p @ [i])
         then \<exists>fl s1. getFlake W (lockedRef l) False (s\<lparr>updatesUsed := insert (p @ [i]) (updatesUsed s)\<rparr>)
                         = Ok fl s1
                \<and> rec (inputs fl) (p @ [i]) (Some (nodeInputs l)) (overrides inp) s1 = Some (Raised e s')
         else rec (fakeInputs l) (p @ [i]) (Some (nodeInputs l)) (overrides inp)
                (s\<lparr>updatesUsed := insert (p @ [i]) (updatesUsed s)\<rparr>) = Some (Raised e s')"
  shows "lockInput rec W F p oldNode i originalInput ovs node s = Some (Raised e s')"
proof -
  have reuse: "lockReuse rec W F (p @ [i]) i inp ovs' node l
                 (s\<lparr>updatesUsed := insert (p @ [i]) (updatesUsed s)\<rparr>) = Some (Raised e s')"
    by (rule lockReuse_propagates) (rule assms(7))
  show ?thesis
    using assms(1-6) reuse by (auto simp: lockInput_def Let_def split: option.splits)
qed

text \<open>
  C2, as amended. The primitive \<^verbatim>\<open>getFlake\<close>, under pure evaluation and with a
  top-level reference that is not immutable, raises \<open>MutableInPureMode\<close> in the
  state it was called in: \<^verbatim>\<open>lockFlake\<close> is not called. In every other case it
  calls \<^verbatim>\<open>lockFlake\<close> with \<^verbatim>\<open>updateLockFile = false\<close> and with
  \<^verbatim>\<open>useRegistries\<close> and \<^verbatim>\<open>allowMutable\<close> false exactly under pure evaluation.
  Inside \<^verbatim>\<open>lockFlake\<close> with \<^verbatim>\<open>allowMutable = false\<close>, the iteration for an input
  that has no follows, is not reused from the old lock file and whose reference is
  not immutable raises \<open>MutableInPureMode\<close> before anything is fetched for it.
  Nothing catches the exception. \<^verbatim>\<open>computeLocks\<close> raises what an iteration raises
  once the inputs before it in the order of the map have been locked; an iteration
  on the fresh path raises what its recursive call raises, after releasing the
  stack entry, and so does an iteration on the reuse path; \<^verbatim>\<open>lockFlake\<close> raises
  what the root call raises. So \<^verbatim>\<open>lockFlake\<close> raises \<open>MutableInPureMode\<close> for such
  an input of the top-level flake when the inputs before it lock without an
  exception.
\<close>

theorem mutable_in_pure_mode:
  "(parseFlakeRef W flakeRefS = Inr flakeRef \<and> pureEval \<and> \<not> isImmutable W (input flakeRef) \<longrightarrow>
      prim_getFlake fuel W pureEval flakeRefS s = Some (Raised MutableInPureMode s))
   \<and> (parseFlakeRef W flakeRefS = Inr flakeRef \<and> \<not> (pureEval \<and> \<not> isImmutable W (input flakeRef)) \<longrightarrow>
      prim_getFlake fuel W pureEval flakeRefS s
        = lockFlake fuel W flakeRef
            \<lparr> recreateLockFile = False, updateLockFile = False, writeLockFile = True,
              useRegistries = \<not> pureEval, allowMutable = \<not> pureEval, commitLockFile = False,
              inputOverrides = [], inputUpdates = [] \<rparr> s)
   \<and> (applyOverride W (p @ [i]) i originalInput ovs = (inp, hasOverride, ovs')
        \<and> follows inp = None \<and> ref inp = Some r
        \<and> \<not> (\<exists>l. getOldLock F oldNode (p @ [i]) i = Some l \<and> originalRef l = r \<and> \<not> hasOverride)
        \<and> \<not> allowMutable F \<and> \<not> isImmutable W (input r) \<longrightarrow>
      lockInput rec W F p oldNode i originalInput ovs node s
        = Some (Raised MutableInPureMode (s\<lparr>updatesUsed := insert (p @ [i]) (updatesUsed s)\<rparr>)))
   \<and> (lockInputs rec W F p oldNode pre ovs0 [] s0 = Some (Ok (node, pre', ovs) s)
        \<and> lockInput rec W F p oldNode i originalInput ovs node s = Some (Raised e s') \<longrightarrow>
      computeLocksBody rec W F (pre @ (i, originalInput) # post) p oldNode ovs0 s0 = Some (Raised e s'))
   \<and> (applyOverride W (p @ [i]) i originalInput ovs = (inp, hasOverride, ovs')
        \<and> follows inp = None \<and> ref inp = Some r
        \<and> \<not> (\<exists>l. getOldLock F oldNode (p @ [i]) i = Some l \<and> originalRef l = r \<and> \<not> hasOverride)
        \<and> (allowMutable F \<or> isImmutable W (input r)) \<and> isFlake inp
        \<and> getFlake W r (useRegistries F) (s\<lparr>updatesUsed := insert (p @ [i]) (updatesUsed s)\<rparr>) = Ok fl s1
        \<and> r \<notin> set (parents s1)
        \<and> freshBaseline W (getOldLock F oldNode (p @ [i]) i) fl = Inr baseline
        \<and> rec (inputs fl) (p @ [i]) (Some baseline) (overrides inp) (s1\<lparr>parents := parents s1 @ [r]\<rparr>)
            = Some (Raised e s') \<longrightarrow>
      lockInput rec W F p oldNode i originalInput ovs node s
        = Some (Raised e (s'\<lparr>parents := butlast (parents s')\<rparr>)))
   \<and> (applyOverride W (p @ [i]) i originalInput ovs = (inp, hasOverride, ovs')
        \<and> follows inp = None \<and> ref inp = Some r
        \<and> getOldLock F oldNode (p @ [i]) i = Some l \<and> originalRef l = r \<and> \<not> hasOverride
        \<and> (if hasChildUpdate F (p @ [i])
            then \<exists>fl s1. getFlake W (lockedRef l) False
                              (s\<lparr>updatesUsed := insert (p @ [i]) (updatesUsed s)\<rparr>) = Ok fl s1
                   \<and> rec (inputs fl) (p @ [i]) (Some (nodeInputs l)) (overrides inp) s1 = Some (Raised e s')
            else rec (fakeInputs l) (p @ [i]) (Some (nodeInputs l)) (overrides inp)
                   (s\<lparr>updatesUsed := insert (p @ [i]) (updatesUsed s)\<rparr>) = Some (Raised e s')) \<longrightarrow>
      lockInput rec W F p oldNode i originalInput ovs node s = Some (Raised e s'))
   \<and> (flakesEnabled W
        \<and> getFlake W topRef (useRegistries F) (s0\<lparr>flakeCache := [], parents := [], updatesUsed := {}\<rparr>)
            = Ok fl s1
        \<and> readLockFile W (actualPath (sourceInfo fl) @ ''/'' @ subdir (flake_lockedRef fl) @ ''/flake.lock'')
            = Inr oldLockFile
        \<and> enterOverrides (inputOverrides F) [] = Inr ovs0
        \<and> computeLocks fuel W F (inputs fl) [] (if recreateLockFile F then None else Some (root oldLockFile))
              ovs0 s1 = Some (Raised e s') \<longrightarrow>
      lockFlake fuel W topRef F s0 = Some (Raised e s'))
   \<and> (flakesEnabled W
        \<and> getFlake W topRef (useRegistries F) (s0\<lparr>flakeCache := [], parents := [], updatesUsed := {}\<rparr>)
            = Ok fl s1
        \<and> readLockFile W (actualPath (sourceInfo fl) @ ''/'' @ subdir (flake_lockedRef fl) @ ''/flake.lock'')
            = Inr oldLockFile
        \<and> enterOverrides (inputOverrides F) [] = Inr ovs0
        \<and> inputs fl = pre @ (i, originalInput) # post
        \<and> lockInputs (computeLocks n W F) W F [] (if recreateLockFile F then None else Some (root oldLockFile))
              pre ovs0 [] s1 = Some (Ok (node, pre', ovs) s)
        \<and> applyOverride W [i] i originalInput ovs = (inp, hasOverride, ovs')
        \<and> follows inp = None \<and> ref inp = Some r
        \<and> \<not> (\<exists>l. getOldLock F (if recreateLockFile F then None else Some (root oldLockFile)) [i] i = Some l
                  \<and> originalRef l = r \<and> \<not> hasOverride)
        \<and> \<not> allowMutable F \<and> \<not> isImmutable W (input r) \<longrightarrow>
      lockFlake (Suc n) W topRef F s0
        = Some (Raised MutableInPureMode (s\<lparr>updatesUsed := insert [i] (updatesUsed s)\<rparr>)))"
proof (intro conjI impI)
  assume "parseFlakeRef W flakeRefS = Inr flakeRef \<and> pureEval \<and> \<not> isImmutable W (input flakeRef)"
  then show "prim_getFlake fuel W pureEval flakeRefS s = Some (Raised MutableInPureMode s)"
    by (simp add: prim_getFlake_def)
next
  assume "parseFlakeRef W flakeRefS = Inr flakeRef \<and> \<not> (pureEval \<and> \<not> isImmutable W (input flakeRef))"
  then show "prim_getFlake fuel W pureEval flakeRefS s
        = lockFlake fuel W flakeRef
            \<lparr> recreateLockFile = False, updateLockFile = False, writeLockFile = True,
              useRegistries = \<not> pureEval, allowMutable = \<not> pureEval, commitLockFile = False,
              inputOverrides = [], inputUpdates = [] \<rparr> s"
    by (auto simp: prim_getFlake_def)
next
  assume "applyOverride W (p @ [i]) i originalInput ovs = (inp, hasOverride, ovs')
        \<and> follows inp = None \<and> ref inp = Some r
        \<and> \<not> (\<exists>l. getOldLock F oldNode (p @ [i]) i = Some l \<and> originalRef l = r \<and> \<not> hasOverride)
        \<and> \<not> allowMutable F \<and> \<not> isImmutable W (input r)"
  then show "lockInput rec W F p oldNode i originalInput ovs node s
        = Some (Raised MutableInPureMode (s\<lparr>updatesUsed := insert (p @ [i]) (updatesUsed s)\<rparr>))"
    using lockInput_mutable by blast
next
  assume "lockInputs rec W F p oldNode pre ovs0 [] s0 = Some (Ok (node, pre', ovs) s)
        \<and> lockInput rec W F p oldNode i originalInput ovs node s = Some (Raised e s')"
  then have "lockInputs rec W F p oldNode (pre @ (i, originalInput) # post) ovs0 [] s0 = Some (Raised e s')"
    using lockInputs_raises_after by blast
  then show "computeLocksBody rec W F (pre @ (i, originalInput) # post) p oldNode ovs0 s0 = Some (Raised e s')"
    by (simp add: computeLocksBody_def)
next
  assume "applyOverride W (p @ [i]) i originalInput ovs = (inp, hasOverride, ovs')
        \<and> follows inp = None \<and> ref inp = Some r
        \<and> \<not> (\<exists>l. getOldLock F oldNode (p @ [i]) i = Some l \<and> originalRef l = r \<and> \<not> hasOverride)
        \<and> (allowMutable F \<or> isImmutable W (input r)) \<and> isFlake inp
        \<and> getFlake W r (useRegistries F) (s\<lparr>updatesUsed := insert (p @ [i]) (updatesUsed s)\<rparr>) = Ok fl s1
        \<and> r \<notin> set (parents s1)
        \<and> freshBaseline W (getOldLock F oldNode (p @ [i]) i) fl = Inr baseline
        \<and> rec (inputs fl) (p @ [i]) (Some baseline) (overrides inp) (s1\<lparr>parents := parents s1 @ [r]\<rparr>)
            = Some (Raised e s')"
  then show "lockInput rec W F p oldNode i originalInput ovs node s
        = Some (Raised e (s'\<lparr>parents := butlast (parents s')\<rparr>))"
    using lockInput_fresh_propagates by blast
next
  assume "applyOverride W (p @ [i]) i originalInput ovs = (inp, hasOverride, ovs')
        \<and> follows inp = None \<and> ref inp = Some r
        \<and> getOldLock F oldNode (p @ [i]) i = Some l \<and> originalRef l = r \<and> \<not> hasOverride
        \<and> (if hasChildUpdate F (p @ [i])
            then \<exists>fl s1. getFlake W (lockedRef l) False
                              (s\<lparr>updatesUsed := insert (p @ [i]) (updatesUsed s)\<rparr>) = Ok fl s1
                   \<and> rec (inputs fl) (p @ [i]) (Some (nodeInputs l)) (overrides inp) s1 = Some (Raised e s')
            else rec (fakeInputs l) (p @ [i]) (Some (nodeInputs l)) (overrides inp)
                   (s\<lparr>updatesUsed := insert (p @ [i]) (updatesUsed s)\<rparr>) = Some (Raised e s'))"
  then show "lockInput rec W F p oldNode i originalInput ovs node s = Some (Raised e s')"
    using lockInput_reuse_propagates[of W p i originalInput ovs inp hasOverride ovs' r F oldNode l s rec e s' node]
    by blast
next
  assume "flakesEnabled W
        \<and> getFlake W topRef (useRegistries F) (s0\<lparr>flakeCache := [], parents := [], updatesUsed := {}\<rparr>)
            = Ok fl s1
        \<and> readLockFile W (actualPath (sourceInfo fl) @ ''/'' @ subdir (flake_lockedRef fl) @ ''/flake.lock'')
            = Inr oldLockFile
        \<and> enterOverrides (inputOverrides F) [] = Inr ovs0
        \<and> computeLocks fuel W F (inputs fl) [] (if recreateLockFile F then None else Some (root oldLockFile))
              ovs0 s1 = Some (Raised e s')"
  then show "lockFlake fuel W topRef F s0 = Some (Raised e s')"
    using lockFlake_propagates by blast
next
  assume h: "flakesEnabled W
        \<and> getFlake W topRef (useRegistries F) (s0\<lparr>flakeCache := [], parents := [], updatesUsed := {}\<rparr>)
            = Ok fl s1
        \<and> readLockFile W (actualPath (sourceInfo fl) @ ''/'' @ subdir (flake_lockedRef fl) @ ''/flake.lock'')
            = Inr oldLockFile
        \<and> enterOverrides (inputOverrides F) [] = Inr ovs0
        \<and> inputs fl = pre @ (i, originalInput) # post
        \<and> lockInputs (computeLocks n W F) W F [] (if recreateLockFile F then None else Some (root oldLockFile))
              pre ovs0 [] s1 = Some (Ok (node, pre', ovs) s)
        \<and> applyOverride W [i] i originalInput ovs = (inp, hasOverride, ovs')
        \<and> follows inp = None \<and> ref inp = Some r
        \<and> \<not> (\<exists>l. getOldLock F (if recreateLockFile F then None else Some (root oldLockFile)) [i] i = Some l
                  \<and> originalRef l = r \<and> \<not> hasOverride)
        \<and> \<not> allowMutable F \<and> \<not> isImmutable W (input r)"
  define old where "old = (if recreateLockFile F then None else Some (root oldLockFile))"
  have it: "lockInput (computeLocks n W F) W F [] old i originalInput ovs node s
              = Some (Raised MutableInPureMode (s\<lparr>updatesUsed := insert [i] (updatesUsed s)\<rparr>))"
    using lockInput_mutable[of W "[]" i originalInput ovs inp hasOverride ovs' r F old "computeLocks n W F" node s]
      h by (simp add: old_def)
  have "lockInputs (computeLocks n W F) W F [] old (pre @ (i, originalInput) # post) ovs0 [] s1
          = Some (Raised MutableInPureMode (s\<lparr>updatesUsed := insert [i] (updatesUsed s)\<rparr>))"
    using lockInputs_raises_after[OF _ it] h by (simp add: old_def)
  then have "computeLocks (Suc n) W F (inputs fl) [] old ovs0 s1
          = Some (Raised MutableInPureMode (s\<lparr>updatesUsed := insert [i] (updatesUsed s)\<rparr>))"
    using h by (simp add: computeLocksBody_def)
  then show "lockFlake (Suc n) W topRef F s0
        = Some (Raised MutableInPureMode (s\<lparr>updatesUsed := insert [i] (updatesUsed s)\<rparr>))"
    using lockFlake_propagates[of W topRef F s0 fl s1 oldLockFile ovs0 "Suc n"] h
    unfolding old_def by blast
qed


theorem mutable_in_pure_mode_witness:
  "prim_getFlake 2 (testWorld evalPure noLock (\<lambda>p. False)) True ''./tree'' emptyState
     = Some (Raised MutableInPureMode emptyState)
   \<and> prim_getFlake 2 (testWorld evalPure noLock (\<lambda>p. False)) False ''/top1'' emptyState
     = lockFlake 2 (testWorld evalPure noLock (\<lambda>p. False)) (pathRef ''/top1'')
         (pureFlags\<lparr>useRegistries := True, allowMutable := True\<rparr>) emptyState
   \<and> (\<exists>s. lockFlake 2 (testWorld evalPure noLock (\<lambda>p. False)) (pathRef ''/top1'') pureFlags emptyState
            = Some (Raised MutableInPureMode s)
          \<and> fetched s = [pathRef ''/top1'', lockedPathRef ''/l''])
   \<and> (\<exists>s. lockFlake 2 (testWorld evalPure noLock (\<lambda>p. False)) (pathRef ''/top2'') pureFlags emptyState
            = Some (Raised MutableInPureMode s)
          \<and> fetched s = [pathRef ''/top2'', lockedPathRef ''/a''] \<and> parents s = [])
   \<and> (\<exists>s. lockFlake 2 (testWorld evalPure lockPure (\<lambda>p. False)) (pathRef ''/top2'') pureFlagsOverride
              emptyState
            = Some (Raised MutableInPureMode s)
          \<and> fetched s = [pathRef ''/top2''])"
proof -
  let ?W = "testWorld evalPure noLock (\<lambda>p. False)"
  let ?F = pureFlags
  let ?init = "emptyState\<lparr>flakeCache := [], parents := [], updatesUsed := {}\<rparr>"
  let ?inpL = "FlakeInput (Some (lockedPathRef ''/l'')) True None False []"
  let ?inpA = "FlakeInput (Some (lockedPathRef ''/a'')) True None False []"
  let ?inpB = "FlakeInput (Some (pathRef ''/b'')) True None False []"
  let ?inpM = "FlakeInput (Some (pathRef ''/m'')) True None False []"
  have en: "flakesEnabled ?W"
    by (simp add: testWorld_def)
  have ovs: "enterOverrides (inputOverrides ?F) [] = Inr []"
    by (simp add: pureFlags_def)
  have two: "(2::nat) = Suc (Suc 0)"
    by simp
  have "parseFlakeRef ?W ''./tree'' = Inr (pathRef ''./tree'') \<and> True
          \<and> \<not> isImmutable ?W (input (pathRef ''./tree''))"
    by (simp add: testWorld_def pathRef_def)
  with mutable_in_pure_mode[where W = ?W and flakeRefS = "''./tree''" and flakeRef = "pathRef ''./tree''"
      and pureEval = True and fuel = 2 and s = emptyState, THEN conjunct1]
  have c1: "prim_getFlake 2 ?W True ''./tree'' emptyState = Some (Raised MutableInPureMode emptyState)"
    by blast
  have "parseFlakeRef ?W ''/top1'' = Inr (pathRef ''/top1'')
          \<and> \<not> (False \<and> \<not> isImmutable ?W (input (pathRef ''/top1'')))"
    by (simp add: testWorld_def)
  with mutable_in_pure_mode[where W = ?W and flakeRefS = "''/top1''" and flakeRef = "pathRef ''/top1''"
      and pureEval = False and fuel = 2 and s = emptyState, THEN conjunct2, THEN conjunct1]
  have c2: "prim_getFlake 2 ?W False ''/top1'' emptyState
              = lockFlake 2 ?W (pathRef ''/top1'') (pureFlags\<lparr>useRegistries := True, allowMutable := True\<rparr>)
                  emptyState"
    by (simp add: pureFlags_def)
  have "case getFlake ?W (pathRef ''/top1'') False ?init of
          Ok fl s1 \<Rightarrow>
            inputs fl = [(''a'', ?inpL), (''b'', ?inpB)]
            \<and> readLockFile ?W (actualPath (sourceInfo fl) @ ''/'' @ subdir (flake_lockedRef fl) @ ''/flake.lock'')
                = Inr \<lparr> root = [] \<rparr>
            \<and> (case lockInputs (computeLocks (Suc 0) ?W ?F) ?W ?F [] (Some []) [(''a'', ?inpL)] [] [] s1 of
                   Some (Ok r s) \<Rightarrow> snd (snd r) = [] \<and> fetched s = [pathRef ''/top1'', lockedPathRef ''/l'']
                 | _ \<Rightarrow> False)
        | _ \<Rightarrow> False"
    by code_simp
  then obtain fl s1 node pre' s where
    g: "getFlake ?W (pathRef ''/top1'') False ?init = Ok fl s1"
    and ins: "inputs fl = [(''a'', ?inpL), (''b'', ?inpB)]"
    and rl: "readLockFile ?W (actualPath (sourceInfo fl) @ ''/'' @ subdir (flake_lockedRef fl) @ ''/flake.lock'')
               = Inr \<lparr> root = [] \<rparr>"
    and loop: "lockInputs (computeLocks (Suc 0) ?W ?F) ?W ?F [] (Some []) [(''a'', ?inpL)] [] [] s1
                 = Some (Ok (node, pre', []) s)"
    and f: "fetched s = [pathRef ''/top1'', lockedPathRef ''/l'']"
    by (auto split: option.splits outcome.splits)
  have g': "getFlake ?W (pathRef ''/top1'') (useRegistries ?F) ?init = Ok fl s1"
    using g by (simp add: pureFlags_def)
  have ins': "inputs fl = [(''a'', ?inpL)] @ (''b'', ?inpB) # []"
    using ins by simp
  have old: "(if recreateLockFile ?F then None else Some (root \<lparr> root = [] \<rparr>)) = Some []"
    by (simp add: pureFlags_def)
  have b: "applyOverride ?W [''b''] ''b'' ?inpB [] = (?inpB, False, [])"
    "follows ?inpB = None" "ref ?inpB = Some (pathRef ''/b'')"
    "\<not> (\<exists>l. getOldLock ?F (Some []) [''b''] ''b'' = Some l \<and> originalRef l = pathRef ''/b'' \<and> \<not> False)"
    "\<not> allowMutable ?F" "\<not> isImmutable ?W (input (pathRef ''/b''))"
    by (simp_all add: applyOverride_def testWorld_def getOldLock_def pureFlags_def pathRef_def)
  note top = mutable_in_pure_mode[where W = ?W and F = ?F and topRef = "pathRef ''/top1''"
      and ?s0.0 = emptyState
      and fl = fl and ?s1.0 = s1 and oldLockFile = "\<lparr> root = [] \<rparr>" and ?ovs0.0 = "[]"
      and pre = "[(''a'', ?inpL)]" and i = "''b''" and originalInput = ?inpB and post = "[]"
      and n = "Suc 0" and node = node and pre' = pre' and ovs = "[]" and s = s
      and inp = ?inpB and hasOverride = False and ovs' = "[]" and r = "pathRef ''/b''",
      THEN conjunct2, THEN conjunct2, THEN conjunct2, THEN conjunct2, THEN conjunct2, THEN conjunct2,
      THEN conjunct2, unfolded old, THEN mp]
  have c3: "lockFlake (Suc (Suc 0)) ?W (pathRef ''/top1'') ?F emptyState
              = Some (Raised MutableInPureMode (s\<lparr>updatesUsed := insert [''b''] (updatesUsed s)\<rparr>))"
    by (rule top) (intro conjI en g' rl ovs ins' loop b)
  have "case getFlake ?W (pathRef ''/top2'') False ?init of
          Ok fl t1 \<Rightarrow>
            inputs fl = [(''a'', ?inpA)]
            \<and> readLockFile ?W (actualPath (sourceInfo fl) @ ''/'' @ subdir (flake_lockedRef fl) @ ''/flake.lock'')
                = Inr \<lparr> root = [] \<rparr>
            \<and> (case getFlake ?W (lockedPathRef ''/a'') False
                         (t1\<lparr>updatesUsed := insert [''a''] (updatesUsed t1)\<rparr>) of
                   Ok flA t2 \<Rightarrow>
                     inputs flA = [(''m'', ?inpM)] \<and> parents t2 = []
                     \<and> freshBaseline ?W None flA = Inr []
                     \<and> fetched t2 = [pathRef ''/top2'', lockedPathRef ''/a'']
                 | _ \<Rightarrow> False)
        | _ \<Rightarrow> False"
    by code_simp
  then obtain fl2 t1 flA t2 where
    g2: "getFlake ?W (pathRef ''/top2'') False ?init = Ok fl2 t1"
    and ins2: "inputs fl2 = [(''a'', ?inpA)]"
    and rl2: "readLockFile ?W (actualPath (sourceInfo fl2) @ ''/'' @ subdir (flake_lockedRef fl2) @ ''/flake.lock'')
               = Inr \<lparr> root = [] \<rparr>"
    and gA: "getFlake ?W (lockedPathRef ''/a'') False (t1\<lparr>updatesUsed := insert [''a''] (updatesUsed t1)\<rparr>)
               = Ok flA t2"
    and insA: "inputs flA = [(''m'', ?inpM)]"
    and pA: "parents t2 = []"
    and bA: "freshBaseline ?W None flA = Inr []"
    and fA: "fetched t2 = [pathRef ''/top2'', lockedPathRef ''/a'']"
    by (auto split: outcome.splits)
  define t2p where "t2p = t2\<lparr>parents := parents t2 @ [lockedPathRef ''/a'']\<rparr>"
  define t3 where "t3 = t2p\<lparr>updatesUsed := insert ([''a''] @ [''m'']) (updatesUsed t2p)\<rparr>"
  define t4 where "t4 = t3\<lparr>parents := butlast (parents t3)\<rparr>"
  have m: "applyOverride ?W ([''a''] @ [''m'']) ''m'' ?inpM [] = (?inpM, False, [])"
    "follows ?inpM = None" "ref ?inpM = Some (pathRef ''/m'')"
    "\<not> (\<exists>l. getOldLock ?F (Some []) ([''a''] @ [''m'']) ''m'' = Some l \<and> originalRef l = pathRef ''/m''
            \<and> \<not> False)"
    "\<not> allowMutable ?F" "\<not> isImmutable ?W (input (pathRef ''/m''))"
    by (simp_all add: applyOverride_def testWorld_def getOldLock_def pureFlags_def pathRef_def)
  have it: "lockInput (computeLocks 0 ?W ?F) ?W ?F [''a''] (Some []) ''m'' ?inpM [] [] t2p
              = Some (Raised MutableInPureMode t3)"
    unfolding t3_def
    by (rule mutable_in_pure_mode[where W = ?W and F = ?F and p = "[''a'']" and i = "''m''"
          and originalInput = ?inpM and ovs = "[]" and inp = ?inpM and hasOverride = False and ovs' = "[]"
          and r = "pathRef ''/m''" and oldNode = "Some []" and rec = "computeLocks 0 ?W ?F" and node = "[]"
          and s = t2p, THEN conjunct2, THEN conjunct2, THEN conjunct1, THEN mp])
      (intro conjI m)
  have loop0: "lockInputs (computeLocks 0 ?W ?F) ?W ?F [''a''] (Some []) [] [] [] t2p
                 = Some (Ok ([], [], []) t2p)"
    by simp
  have body1: "computeLocksBody (computeLocks 0 ?W ?F) ?W ?F ([] @ (''m'', ?inpM) # []) [''a''] (Some []) [] t2p
                 = Some (Raised MutableInPureMode t3)"
    by (rule mutable_in_pure_mode[where W = ?W and F = ?F and p = "[''a'']" and i = "''m''"
          and originalInput = ?inpM and ovs = "[]" and oldNode = "Some []" and rec = "computeLocks 0 ?W ?F"
          and node = "[]" and s = t2p and pre = "[]" and ?ovs0.0 = "[]" and ?s0.0 = t2p and pre' = "[]"
          and e = MutableInPureMode and s' = t3 and post = "[]",
          THEN conjunct2, THEN conjunct2, THEN conjunct2, THEN conjunct1, THEN mp])
      (intro conjI loop0 it)
  have a: "applyOverride ?W ([] @ [''a'']) ''a'' ?inpA [] = (?inpA, False, [])"
    "follows ?inpA = None" "ref ?inpA = Some (lockedPathRef ''/a'')"
    "\<not> (\<exists>l. getOldLock ?F (Some []) ([] @ [''a'']) ''a'' = Some l \<and> originalRef l = lockedPathRef ''/a''
            \<and> \<not> False)"
    "allowMutable ?F \<or> isImmutable ?W (input (lockedPathRef ''/a''))" "isFlake ?inpA"
    by (simp_all add: applyOverride_def testWorld_def getOldLock_def pureFlags_def lockedPathRef_def)
  have a7: "getFlake ?W (lockedPathRef ''/a'') (useRegistries ?F)
              (t1\<lparr>updatesUsed := insert ([] @ [''a'']) (updatesUsed t1)\<rparr>) = Ok flA t2"
    using gA by (simp add: pureFlags_def)
  have a8: "lockedPathRef ''/a'' \<notin> set (parents t2)"
    by (simp add: pA)
  have a9: "freshBaseline ?W (getOldLock ?F (Some []) ([] @ [''a'']) ''a'') flA = Inr []"
    using bA by (simp add: getOldLock_def pureFlags_def)
  have a10: "computeLocks (Suc 0) ?W ?F (inputs flA) ([] @ [''a'']) (Some []) (overrides ?inpA)
               (t2\<lparr>parents := parents t2 @ [lockedPathRef ''/a'']\<rparr>)
             = Some (Raised MutableInPureMode t3)"
    using body1 by (simp add: insA t2p_def)
  have it2: "lockInput (computeLocks (Suc 0) ?W ?F) ?W ?F [] (Some []) ''a'' ?inpA [] [] t1
               = Some (Raised MutableInPureMode t4)"
    unfolding t4_def
    by (rule mutable_in_pure_mode[where W = ?W and F = ?F and p = "[]" and i = "''a''"
          and originalInput = ?inpA and ovs = "[]" and inp = ?inpA and hasOverride = False and ovs' = "[]"
          and r = "lockedPathRef ''/a''" and oldNode = "Some []" and rec = "computeLocks (Suc 0) ?W ?F"
          and node = "[]" and s = t1 and fl = flA and ?s1.0 = t2 and baseline = "[]"
          and e = MutableInPureMode and s' = t3,
          THEN conjunct2, THEN conjunct2, THEN conjunct2, THEN conjunct2, THEN conjunct1, THEN mp])
      (intro conjI a a7 a8 a9 a10)
  have loop1: "lockInputs (computeLocks (Suc 0) ?W ?F) ?W ?F [] (Some []) [] [] [] t1
                 = Some (Ok ([], [], []) t1)"
    by simp
  have body2: "computeLocksBody (computeLocks (Suc 0) ?W ?F) ?W ?F ([] @ (''a'', ?inpA) # []) [] (Some []) [] t1
                 = Some (Raised MutableInPureMode t4)"
    by (rule mutable_in_pure_mode[where W = ?W and F = ?F and p = "[]" and i = "''a''"
          and originalInput = ?inpA and ovs = "[]" and oldNode = "Some []"
          and rec = "computeLocks (Suc 0) ?W ?F"
          and node = "[]" and s = t1 and pre = "[]" and ?ovs0.0 = "[]" and ?s0.0 = t1 and pre' = "[]"
          and e = MutableInPureMode and s' = t4 and post = "[]",
          THEN conjunct2, THEN conjunct2, THEN conjunct2, THEN conjunct1, THEN mp])
      (intro conjI loop1 it2)
  have g2': "getFlake ?W (pathRef ''/top2'') (useRegistries ?F) ?init = Ok fl2 t1"
    using g2 by (simp add: pureFlags_def)
  have root2: "computeLocks (Suc (Suc 0)) ?W ?F (inputs fl2) []
                 (if recreateLockFile ?F then None else Some (root \<lparr> root = [] \<rparr>)) [] t1
               = Some (Raised MutableInPureMode t4)"
    using body2 by (simp add: ins2 pureFlags_def)
  have c4: "lockFlake (Suc (Suc 0)) ?W (pathRef ''/top2'') ?F emptyState = Some (Raised MutableInPureMode t4)"
    by (rule mutable_in_pure_mode[where W = ?W and F = ?F and topRef = "pathRef ''/top2''"
          and ?s0.0 = emptyState and fl = fl2 and ?s1.0 = t1 and oldLockFile = "\<lparr> root = [] \<rparr>"
          and ?ovs0.0 = "[]" and fuel = "Suc (Suc 0)" and e = MutableInPureMode and s' = t4,
          THEN conjunct2, THEN conjunct2, THEN conjunct2, THEN conjunct2, THEN conjunct2, THEN conjunct2,
          THEN conjunct1, THEN mp])
      (intro conjI en g2' rl2 ovs root2)
  have f4: "fetched t4 = [pathRef ''/top2'', lockedPathRef ''/a''] \<and> parents t4 = []"
    by (simp add: t4_def t3_def t2p_def fA pA)
  let ?W3 = "testWorld evalPure lockPure (\<lambda>p. False)"
  let ?F3 = pureFlagsOverride
  let ?ovM = "FlakeInput (Some (pathRef ''/x'')) True None False []"
  let ?ovs3 = "[(''a'', FlakeInput None True None False [(''m'', ?ovM)])]"
  let ?inpA' = "FlakeInput (Some (lockedPathRef ''/a'')) True None False [(''m'', ?ovM)]"
  let ?fakeM = "FlakeInput (Some (pathRef ''/m'')) True None False []"
  let ?oldA = "[(''m'', Inl (LockedNode (lockedPathRef ''/m'') (pathRef ''/m'') True []))]"
  have en3: "flakesEnabled ?W3"
    by (simp add: testWorld_def)
  have ovs3: "enterOverrides (inputOverrides ?F3) [] = Inr ?ovs3"
    by code_simp
  have "case getFlake ?W3 (pathRef ''/top2'') False ?init of
          Ok fl u1 \<Rightarrow>
            inputs fl = [(''a'', ?inpA)]
            \<and> readLockFile ?W3 (actualPath (sourceInfo fl) @ ''/'' @ subdir (flake_lockedRef fl) @ ''/flake.lock'')
                = Inr \<lparr> root = [(''a'', Inl lockedA)] \<rparr>
            \<and> fetched u1 = [pathRef ''/top2'']
        | _ \<Rightarrow> False"
    by code_simp
  then obtain fl3 u1 where
    g3: "getFlake ?W3 (pathRef ''/top2'') False ?init = Ok fl3 u1"
    and ins3: "inputs fl3 = [(''a'', ?inpA)]"
    and rl3: "readLockFile ?W3 (actualPath (sourceInfo fl3) @ ''/'' @ subdir (flake_lockedRef fl3) @ ''/flake.lock'')
               = Inr \<lparr> root = [(''a'', Inl lockedA)] \<rparr>"
    and f3: "fetched u1 = [pathRef ''/top2'']"
    by (auto split: outcome.splits)
  define u2 where "u2 = u1\<lparr>updatesUsed := insert ([] @ [''a'']) (updatesUsed u1)\<rparr>"
  define u3 where "u3 = u2\<lparr>updatesUsed := insert ([''a''] @ [''m'']) (updatesUsed u2)\<rparr>"
  have m3: "applyOverride ?W3 ([''a''] @ [''m'']) ''m'' ?fakeM [(''m'', ?ovM)] = (?ovM, True, [])"
    "follows ?ovM = None" "ref ?ovM = Some (pathRef ''/x'')"
    "\<not> (\<exists>l. getOldLock ?F3 (Some ?oldA) ([''a''] @ [''m'']) ''m'' = Some l \<and> originalRef l = pathRef ''/x''
            \<and> \<not> True)"
    "\<not> allowMutable ?F3" "\<not> isImmutable ?W3 (input (pathRef ''/x''))"
    by (simp_all add: applyOverride_def testWorld_def pureFlagsOverride_def pureFlags_def pathRef_def
        set_ref_def set_overrides_def erase_def)
  have it3: "lockInput (computeLocks 0 ?W3 ?F3) ?W3 ?F3 [''a''] (Some ?oldA) ''m'' ?fakeM [(''m'', ?ovM)] [] u2
              = Some (Raised MutableInPureMode u3)"
    unfolding u3_def
    by (rule mutable_in_pure_mode[where W = ?W3 and F = ?F3 and p = "[''a'']" and i = "''m''"
          and originalInput = ?fakeM and ovs = "[(''m'', ?ovM)]" and inp = ?ovM and hasOverride = True
          and ovs' = "[]" and r = "pathRef ''/x''" and oldNode = "Some ?oldA"
          and rec = "computeLocks 0 ?W3 ?F3" and node = "[]" and s = u2,
          THEN conjunct2, THEN conjunct2, THEN conjunct1, THEN mp])
      (intro conjI m3)
  have loop3: "lockInputs (computeLocks 0 ?W3 ?F3) ?W3 ?F3 [''a''] (Some ?oldA) [] [(''m'', ?ovM)] [] u2
                 = Some (Ok ([], [], [(''m'', ?ovM)]) u2)"
    by simp
  have body3: "computeLocksBody (computeLocks 0 ?W3 ?F3) ?W3 ?F3 ([] @ (''m'', ?fakeM) # []) [''a'']
                 (Some ?oldA) [(''m'', ?ovM)] u2
               = Some (Raised MutableInPureMode u3)"
    by (rule mutable_in_pure_mode[where W = ?W3 and F = ?F3 and p = "[''a'']" and i = "''m''"
          and originalInput = ?fakeM and ovs = "[(''m'', ?ovM)]" and oldNode = "Some ?oldA"
          and rec = "computeLocks 0 ?W3 ?F3"
          and node = "[]" and s = u2 and pre = "[]" and ?ovs0.0 = "[(''m'', ?ovM)]" and ?s0.0 = u2
          and pre' = "[]" and e = MutableInPureMode and s' = u3 and post = "[]",
          THEN conjunct2, THEN conjunct2, THEN conjunct2, THEN conjunct1, THEN mp])
      (intro conjI loop3 it3)
  have r3: "applyOverride ?W3 ([] @ [''a'']) ''a'' ?inpA ?ovs3 = (?inpA', False, [])"
    "follows ?inpA' = None" "ref ?inpA' = Some (lockedPathRef ''/a'')"
    "getOldLock ?F3 (Some [(''a'', Inl lockedA)]) ([] @ [''a'']) ''a'' = Some lockedA"
    "originalRef lockedA = lockedPathRef ''/a''" "\<not> False"
    by (simp_all add: applyOverride_def testWorld_def getOldLock_def pureFlagsOverride_def pureFlags_def
        set_ref_def set_overrides_def erase_def lockedA_def insert_or_assign_def)
  have r7: "if hasChildUpdate ?F3 ([] @ [''a''])
         then \<exists>fl s1. getFlake ?W3 (lockedRef lockedA) False
                           (u1\<lparr>updatesUsed := insert ([] @ [''a'']) (updatesUsed u1)\<rparr>) = Ok fl s1
                \<and> computeLocks (Suc 0) ?W3 ?F3 (inputs fl) ([] @ [''a'']) (Some (nodeInputs lockedA))
                      (overrides ?inpA') s1 = Some (Raised MutableInPureMode u3)
         else computeLocks (Suc 0) ?W3 ?F3 (fakeInputs lockedA) ([] @ [''a'']) (Some (nodeInputs lockedA))
                (overrides ?inpA') (u1\<lparr>updatesUsed := insert ([] @ [''a'']) (updatesUsed u1)\<rparr>)
              = Some (Raised MutableInPureMode u3)"
    using body3
    by (simp add: hasChildUpdate_def pureFlagsOverride_def pureFlags_def fakeInputs_def fakeInput_def
        lockedA_def emplace_def u2_def)
  have it4: "lockInput (computeLocks (Suc 0) ?W3 ?F3) ?W3 ?F3 [] (Some [(''a'', Inl lockedA)]) ''a'' ?inpA
               ?ovs3 [] u1
             = Some (Raised MutableInPureMode u3)"
    by (rule mutable_in_pure_mode[where W = ?W3 and F = ?F3 and p = "[]" and i = "''a''"
          and originalInput = ?inpA and ovs = ?ovs3 and inp = ?inpA' and hasOverride = False and ovs' = "[]"
          and r = "lockedPathRef ''/a''" and oldNode = "Some [(''a'', Inl lockedA)]"
          and rec = "computeLocks (Suc 0) ?W3 ?F3" and node = "[]" and s = u1 and l = lockedA
          and e = MutableInPureMode and s' = u3,
          THEN conjunct2, THEN conjunct2, THEN conjunct2, THEN conjunct2, THEN conjunct2, THEN conjunct1,
          THEN mp])
      (intro conjI r3 r7)
  have loop4: "lockInputs (computeLocks (Suc 0) ?W3 ?F3) ?W3 ?F3 [] (Some [(''a'', Inl lockedA)]) [] ?ovs3 [] u1
                 = Some (Ok ([], [], ?ovs3) u1)"
    by simp
  have body4: "computeLocksBody (computeLocks (Suc 0) ?W3 ?F3) ?W3 ?F3 ([] @ (''a'', ?inpA) # []) []
                 (Some [(''a'', Inl lockedA)]) ?ovs3 u1
               = Some (Raised MutableInPureMode u3)"
    by (rule mutable_in_pure_mode[where W = ?W3 and F = ?F3 and p = "[]" and i = "''a''"
          and originalInput = ?inpA and ovs = ?ovs3 and oldNode = "Some [(''a'', Inl lockedA)]"
          and rec = "computeLocks (Suc 0) ?W3 ?F3"
          and node = "[]" and s = u1 and pre = "[]" and ?ovs0.0 = ?ovs3 and ?s0.0 = u1
          and pre' = "[]" and e = MutableInPureMode and s' = u3 and post = "[]",
          THEN conjunct2, THEN conjunct2, THEN conjunct2, THEN conjunct1, THEN mp])
      (intro conjI loop4 it4)
  have g3': "getFlake ?W3 (pathRef ''/top2'') (useRegistries ?F3) ?init = Ok fl3 u1"
    using g3 by (simp add: pureFlagsOverride_def pureFlags_def)
  have root3: "computeLocks (Suc (Suc 0)) ?W3 ?F3 (inputs fl3) []
                 (if recreateLockFile ?F3 then None else Some (root \<lparr> root = [(''a'', Inl lockedA)] \<rparr>))
                 ?ovs3 u1
               = Some (Raised MutableInPureMode u3)"
    using body4 by (simp add: ins3 pureFlagsOverride_def pureFlags_def)
  have c5: "lockFlake (Suc (Suc 0)) ?W3 (pathRef ''/top2'') ?F3 emptyState = Some (Raised MutableInPureMode u3)"
    by (rule mutable_in_pure_mode[where W = ?W3 and F = ?F3 and topRef = "pathRef ''/top2''"
          and ?s0.0 = emptyState and fl = fl3 and ?s1.0 = u1
          and oldLockFile = "\<lparr> root = [(''a'', Inl lockedA)] \<rparr>"
          and ?ovs0.0 = ?ovs3 and fuel = "Suc (Suc 0)" and e = MutableInPureMode and s' = u3,
          THEN conjunct2, THEN conjunct2, THEN conjunct2, THEN conjunct2, THEN conjunct2, THEN conjunct2,
          THEN conjunct1, THEN mp])
      (intro conjI en3 g3' rl3 ovs3 root3)
  have f5: "fetched u3 = [pathRef ''/top2'']"
    by (simp add: u3_def u2_def f3)
  show ?thesis
    using c1 c2 c3 f c4 f4 c5 f5 unfolding two by simp
qed

text \<open>
  C2, as stated, fails: \<^verbatim>\<open>lockFlake\<close> with \<^verbatim>\<open>allowMutable = false\<close> on the mutable
  top-level reference \<open>path:./tree\<close> of a flake without inputs returns a locked
  flake.
\<close>

theorem mutable_top_level_locks_counterexample:
  "\<not> isImmutable (testWorld evalLeaf noLock (\<lambda>p. False)) (input (pathRef ''./tree''))
   \<and> \<not> allowMutable (defaultFlags\<lparr>allowMutable := False\<rparr>)
   \<and> (case lockFlake 1 (testWorld evalLeaf noLock (\<lambda>p. False)) (pathRef ''./tree'')
              (defaultFlags\<lparr>allowMutable := False\<rparr>) emptyState of
         Some (Ok lf s) \<Rightarrow> lockFile lf = \<lparr> root = [] \<rparr>
       | _ \<Rightarrow> False)"
  by code_simp

section \<open>The original reference under an override\<close>

text \<open>
  C1, at the failing input: the manifest declares \<open>dep\<close> with the reference
  \<open>/a\<close>, the flags override \<open>dep\<close> with \<open>/b\<close>, and there is no old lock. The
  locked node of \<open>dep\<close> has the override \<open>/b\<close> as its original reference, not
  the declared \<open>/a\<close>.
\<close>

theorem override_becomes_original_ref:
  "parseInputsBlock (testWorld eval1 noLock (\<lambda>p. False))
       [(''inputs'', VAttrs [(''dep'', VAttrs [(''url'', VString ''/a'')])]),
        (''outputs'', VLambda True [''self'', ''dep''])]
     = Inr [(''dep'', FlakeInput (Some (pathRef ''/a'')) True None False [])]
   \<and> (case lockFlake 2 (testWorld eval1 noLock (\<lambda>p. False)) (pathRef ''/top'')
              (defaultFlags\<lparr>inputOverrides := [([''dep''], pathRef ''/b'')]\<rparr>) emptyState of
         Some (Ok lf s) \<Rightarrow>
           root (lockFile lf) = [(''dep'', Inl (LockedNode (lockedPathRef ''/b'') (pathRef ''/b'') True []))]
       | _ \<Rightarrow> False)"
  by code_simp

section \<open>The uninitialised override flag\<close>

text \<open>
  C3, at the failing input: no override matches \<open>dep\<close>, and the old lock file
  has a locked node for it whose original reference is the declared one. When the
  uninitialised \<^verbatim>\<open>hasOverride\<close> reads as true, the node is not reused and
  \<open>/a\<close> is fetched; when it reads as false, only the top-level flake is fetched.
\<close>

theorem uninitialised_hasOverride_refetches:
  "(case lockFlake 3 (testWorld eval1 lockWithDep (\<lambda>p. True)) (pathRef ''/top'') defaultFlags emptyState of
      Some (Ok lf s) \<Rightarrow> fetched s = [pathRef ''/top'', pathRef ''/a'']
    | _ \<Rightarrow> False)
   \<and> (case lockFlake 3 (testWorld eval1 lockWithDep (\<lambda>p. False)) (pathRef ''/top'') defaultFlags emptyState of
      Some (Ok lf s) \<Rightarrow> fetched s = [pathRef ''/top'']
    | _ \<Rightarrow> False)"
  by code_simp

text \<open>
  C6, at the failing input: \<open>b\<close>, an input of the flake \<open>a\<close>, declares
  \<open>follows = "c"\<close>; it is not overridden and not absolute. When the uninitialised
  \<^verbatim>\<open>hasOverride\<close> reads as true the edge recorded for \<open>b\<close> is \<open>[c]\<close>, which does
  not resolve from the root, so the check of the new lock file fails; when it reads
  as false the edge is \<open>[a, c]\<close>.
\<close>

theorem uninitialised_hasOverride_follows_target:
  "(case computeLocks 1 (testWorld evalFollows noLock (\<lambda>p. True)) defaultFlags
           [(''b'', FlakeInput None True (Some [''c'']) False [])] [''a''] None [] emptyState of
      Some (Ok r s) \<Rightarrow> fst r = [(''b'', Inr [''c''])]
    | _ \<Rightarrow> False)
   \<and> (case lockFlake 3 (testWorld evalFollows noLock (\<lambda>p. True)) (pathRef ''/top'') defaultFlags emptyState of
      Some (Raised e s) \<Rightarrow> e = DanglingFollows
    | _ \<Rightarrow> False)
   \<and> (case lockFlake 3 (testWorld evalFollows noLock (\<lambda>p. False)) (pathRef ''/top'') defaultFlags emptyState of
      Some (Ok lf s) \<Rightarrow>
        root (lockFile lf)
          = [(''a'', Inl (LockedNode (lockedPathRef ''/a'') (pathRef ''/a'') True
                            [(''b'', Inr [''a'', ''c'']),
                             (''c'', Inl (LockedNode (lockedPathRef ''/c'') (pathRef ''/c'') True []))]))]
    | _ \<Rightarrow> False)"
  by code_simp

section \<open>Fetching a resolved reference\<close>

text \<open>
  C4, at the failing input: \<open>/nixpkgs\<close> is fetched and cached, then the indirect
  reference \<open>nixpkgs\<close>, which the registry resolves to \<open>/nixpkgs\<close>, is requested
  in the same solve. The second request fetches \<open>/nixpkgs\<close> again.
\<close>

theorem resolved_reference_fetched_twice:
  "(case fetchOrSubstituteTree (testWorld evalLeaf noLock (\<lambda>p. False)) (pathRef ''/nixpkgs'') True emptyState of
      Ok r1 s1 \<Rightarrow>
        lookupInFlakeCache (flakeCache s1) (pathRef ''/nixpkgs'') = Some (testTree ''/nixpkgs'', lockedPathRef ''/nixpkgs'')
        \<and> fetched s1 = [pathRef ''/nixpkgs'']
        \<and> resolve (testWorld evalLeaf noLock (\<lambda>p. False)) (indirectRef ''nixpkgs'') = Inr (pathRef ''/nixpkgs'')
        \<and> (case fetchOrSubstituteTree (testWorld evalLeaf noLock (\<lambda>p. False)) (indirectRef ''nixpkgs'') True s1 of
              Ok r2 s2 \<Rightarrow> fetched s2 = [pathRef ''/nixpkgs'', pathRef ''/nixpkgs'']
            | _ \<Rightarrow> False)
    | _ \<Rightarrow> False)"
  by code_simp

end
